theory Spec2Isabelle
  imports Main
begin

text \<open>
  A model of the inbound pipeline of the Feishu channel plugin: the access policy of
  policy.ts, the event normalisation, media resolution and message handler of bot.ts,
  and the reply delivery of reply-dispatcher.ts, with the properties the specification
  states about them. Every source function keeps its name; a local of a long function
  that the properties speak about is a definition of its own, named after the local.
\<close>

section \<open>JavaScript strings and values\<close>

text \<open>
  A JavaScript string is modelled as a \<open>string\<close> (a list of 8-bit characters): ASCII text
  is one character per code unit, any other character is its UTF-8 bytes. The string
  primitives below follow JavaScript on ASCII: \<open>trim\<close> removes tab, line feed, vertical
  tab, form feed, carriage return and space from both ends, \<open>toLowerCase\<close> maps
  \<open>A\<close>..\<open>Z\<close> to \<open>a\<close>..\<open>z\<close>. Unicode white space, the line terminators U+2028 and U+2029,
  and case pairs beyond ASCII are outside the model, and \<open>slice\<close> counts the model's
  characters.
\<close>

definition is_space :: "char \<Rightarrow> bool" where
  "is_space c \<longleftrightarrow> c \<in> set [CHR 0x09, CHR 0x0A, CHR 0x0B, CHR 0x0C, CHR 0x0D, CHR 0x20]"

definition trim :: "string \<Rightarrow> string" where
  "trim s = rev (dropWhile is_space (rev (dropWhile is_space s)))"

definition lower_char :: "char \<Rightarrow> char" where
  "lower_char c =
     (let n = (of_char c :: nat) in if 65 \<le> n \<and> n \<le> 90 then char_of (n + 32) else c)"

definition toLowerCase :: "string \<Rightarrow> string" where
  "toLowerCase s = map lower_char s"

text \<open>
  The decimal digits of an integer. \<open>String(n)\<close> and a template literal render a number
  so when it is a safe integer (\<open>Number.isSafeInteger\<close>: integral, of magnitude below
  \<open>2^53\<close>); the lengths and counts that the log lines print are such numbers.
\<close>

fun dec_nat :: "nat \<Rightarrow> string" where
  "dec_nat n =
     (if n < 10 then [char_of (48 + n)] else dec_nat (n div 10) @ [char_of (48 + n mod 10)])"

declare dec_nat.simps [simp del]

definition dec_int :: "int \<Rightarrow> string" where
  "dec_int i = (if i < 0 then CHR ''-'' # dec_nat (nat (- i)) else dec_nat (nat i))"

definition safe_integer :: "int \<Rightarrow> bool" where
  "safe_integer n \<longleftrightarrow> - (2 ^ 53) < n \<and> n < 2 ^ 53"

text \<open>
  A JavaScript number where the code renders it with \<open>String\<close> and reads nothing else of
  it: a safe integer is given by its value; any other number (a fraction, an integer
  from \<open>2^53\<close> on, \<open>NaN\<close>, an infinity) is given by the text that \<open>String\<close> renders it as,
  such as \<open>0.5\<close> or \<open>1e+21\<close>. \<open>SafeInteger n\<close> stands for a number when \<open>safe_integer n\<close>.
\<close>

datatype js_number = SafeInteger int | OtherNumber string

fun Number_toString :: "js_number \<Rightarrow> string" where
  "Number_toString (SafeInteger n) = dec_int n"
| "Number_toString (OtherNumber rendered) = rendered"

section \<open>Access policy (policy.ts)\<close>

text \<open>An allow-list entry is \<open>string | number\<close>; \<open>String(entry)\<close> renders it.\<close>

datatype allow_entry = EStr string | ENum js_number

fun String_of :: "allow_entry \<Rightarrow> string" where
  "String_of (EStr s) = s"
| "String_of (ENum n) = Number_toString n"

datatype match_source = SrcWildcard | SrcId | SrcName

record allowlist_match =
  allowed :: bool
  matchKey :: "string option"
  matchSource :: "match_source option"

definition not_allowed :: allowlist_match where
  "not_allowed = \<lparr>allowed = False, matchKey = None, matchSource = None\<rparr>"

definition allowed_by :: "string \<Rightarrow> match_source \<Rightarrow> allowlist_match" where
  "allowed_by k src = \<lparr>allowed = True, matchKey = Some k, matchSource = Some src\<rparr>"

text \<open>
  \<open>normalize_allowFrom\<close> is the local \<open>allowFrom\<close> of \<open>resolveFeishuAllowlistMatch\<close>:
  \<open>params.allowFrom.map((entry) => String(entry).trim().toLowerCase()).filter(Boolean)\<close>.
\<close>

definition normalize_allowFrom :: "allow_entry list \<Rightarrow> string list" where
  "normalize_allowFrom allowFrom =
     filter (\<lambda>e. e \<noteq> []) (map (\<lambda>entry. toLowerCase (trim (String_of entry))) allowFrom)"

definition resolveFeishuAllowlistMatch ::
  "allow_entry list \<Rightarrow> string \<Rightarrow> string option \<Rightarrow> allowlist_match" where
  "resolveFeishuAllowlistMatch allowFrom senderId senderName =
     (let af = normalize_allowFrom allowFrom in
      if length af = 0 then not_allowed
      else if ''*'' \<in> set af then allowed_by ''*'' SrcWildcard
      else
        let sid = toLowerCase senderId in
        if sid \<in> set af then allowed_by sid SrcId
        else
          (case map_option toLowerCase senderName of
             Some sname \<Rightarrow>
               if sname \<noteq> [] \<and> sname \<in> set af then allowed_by sname SrcName
               else not_allowed
           | None \<Rightarrow> not_allowed))"

text \<open>
  Two configuration entries differ only in case and surrounding white space when the
  second renders as the first with its letters' case changed and white space added at
  both ends.
\<close>

definition pad_variant :: "allow_entry \<Rightarrow> allow_entry \<Rightarrow> bool" where
  "pad_variant e e' \<longleftrightarrow>
     (\<exists>l r s. list_all is_space l \<and> list_all is_space r \<and> String_of e' = l @ s @ r \<and>
        toLowerCase s = toLowerCase (String_of e))"

datatype group_policy = GroupOpen | GroupAllowlist | GroupDisabled

datatype dm_policy = DmOpen | DmPairing | DmAllowlist

datatype render_mode = RenderAuto | RenderRaw | RenderCard

text \<open>
  \<open>FeishuGroupConfig\<close> and \<open>FeishuConfig\<close> are declared in types.ts; the records carry the
  fields that bot.ts, policy.ts and reply-dispatcher.ts read. An optional field is an
  \<open>option\<close>; the \<open>groups\<close> dictionary is an association list in key order. The fields of
  \<open>FeishuConfig\<close> carry the prefix \<open>cfg_\<close>, those of a group's configuration \<open>g_\<close>.
\<close>

record FeishuGroupConfig =
  g_allowFrom :: "allow_entry list option"
  g_requireMention :: "bool option"

record FeishuConfig =
  cfg_groupPolicy :: "group_policy option"
  cfg_groupAllowFrom :: "allow_entry list option"
  cfg_groups :: "(string \<times> FeishuGroupConfig) list"
  cfg_requireMention :: "bool option"
  cfg_dmPolicy :: "dm_policy option"
  cfg_allowFrom :: "allow_entry list option"
  cfg_historyLimit :: "int option"
  cfg_mediaMaxMb :: "int option"
  cfg_renderMode :: "render_mode option"

definition resolveFeishuGroupConfig ::
  "FeishuConfig option \<Rightarrow> string option \<Rightarrow> FeishuGroupConfig option" where
  "resolveFeishuGroupConfig cfg groupId =
     (let grps = (case cfg of Some c \<Rightarrow> cfg_groups c | None \<Rightarrow> []) in
      case map_option trim groupId of
        None \<Rightarrow> None
      | Some gid \<Rightarrow>
          if gid = [] then None
          else
            (case map_of grps gid of
               Some direct \<Rightarrow> Some direct
             | None \<Rightarrow>
                 (let lowered = toLowerCase gid in
                  case find (\<lambda>key. toLowerCase key = lowered) (map fst grps) of
                    Some mkey \<Rightarrow> map_of grps mkey
                  | None \<Rightarrow> None)))"

definition isFeishuGroupAllowed ::
  "group_policy \<Rightarrow> allow_entry list \<Rightarrow> string \<Rightarrow> string option \<Rightarrow> bool" where
  "isFeishuGroupAllowed gp allowFrom senderId senderName =
     (if gp = GroupDisabled then False
      else if gp = GroupOpen then True
      else allowed (resolveFeishuAllowlistMatch allowFrom senderId senderName))"

definition resolveFeishuReplyPolicy ::
  "bool \<Rightarrow> FeishuConfig option \<Rightarrow> FeishuGroupConfig option \<Rightarrow> bool" where
  "resolveFeishuReplyPolicy isDirectMessage globalConfig groupConfig =
     (if isDirectMessage then False
      else
        (case Option.bind groupConfig g_requireMention of
           Some b \<Rightarrow> b
         | None \<Rightarrow>
             (case Option.bind globalConfig cfg_requireMention of
                Some b \<Rightarrow> b
              | None \<Rightarrow> True)))"

section \<open>Inbound events and their normalisation (bot.ts)\<close>

subsection \<open>Parsed JSON\<close>

text \<open>
  \<open>JSON.parse\<close> is the language's own parser: the functions that call it take it as
  the parameter \<open>JSON_parse\<close>, which yields \<open>None\<close> where \<open>JSON.parse\<close> throws a
  SyntaxError. An object is the association list of its properties. Of a parsed number
  the code reads only whether it is zero (\<open>truthy\<close>); \<open>JNum\<close> carries an integer.
\<close>

datatype json =
    JNull
  | JBool bool
  | JNum int
  | JStr string
  | JArr "json list"
  | JObj "(string \<times> json) list"

datatype js_error = TypeError | Thrown string

text \<open>
  \<open>get_prop v k\<close> is the property read \<open>v.k\<close>: a TypeError on \<open>null\<close>, \<open>undefined\<close>
  (\<open>None\<close>) on a missing property and on a boolean, number, string or array (none of
  the property names read below exists on those).
\<close>

fun get_prop :: "json \<Rightarrow> string \<Rightarrow> js_error + json option" where
  "get_prop JNull k = Inl TypeError"
| "get_prop (JObj kvs) k = Inr (map_of kvs k)"
| "get_prop v k = Inr None"

fun truthy :: "json option \<Rightarrow> bool" where
  "truthy None = False"
| "truthy (Some JNull) = False"
| "truthy (Some (JBool b)) = b"
| "truthy (Some (JNum n)) = (n \<noteq> 0)"
| "truthy (Some (JStr s)) = (s \<noteq> [])"
| "truthy (Some (JArr xs)) = True"
| "truthy (Some (JObj kvs)) = True"

text \<open>
  The platform's schema types the fields \<open>text\<close>, \<open>title\<close>, \<open>href\<close>, \<open>user_name\<close>,
  \<open>user_id\<close>, \<open>image_key\<close>, \<open>file_key\<close> and \<open>file_name\<close> as strings. \<open>str_field\<close> reads
  such a field: the string, or \<open>None\<close> for \<open>undefined\<close>; a value of another type there is
  outside the schema and read as \<open>undefined\<close>. \<open>or_else\<close> is \<open>a || b\<close> on such fields
  (the empty string is falsy).
\<close>

fun str_field :: "json option \<Rightarrow> string option" where
  "str_field (Some (JStr s)) = Some s"
| "str_field v = None"

definition falsy_str :: "string option \<Rightarrow> bool" where
  "falsy_str v \<longleftrightarrow> (case v of None \<Rightarrow> True | Some s \<Rightarrow> s = [])"

definition or_else :: "string option \<Rightarrow> string option \<Rightarrow> string option" where
  "or_else a b = (if falsy_str a then b else a)"

definition or_empty :: "string option \<Rightarrow> string" where
  "or_empty a = (case or_else a (Some []) of Some s \<Rightarrow> s | None \<Rightarrow> [])"

subsection \<open>Events\<close>

record id_set =
  open_id :: "string option"
  user_id :: "string option"
  union_id :: "string option"

record mention =
  m_key :: string
  m_id :: id_set
  m_name :: string
  m_tenant_key :: "string option"

datatype chat_type = ChatP2p | ChatGroup

text \<open>\<open>FeishuMessageEvent\<close>, its \<open>sender\<close> and \<open>message\<close> parts flattened.\<close>

record FeishuMessageEvent =
  ev_sender_id :: id_set
  ev_sender_type :: "string option"
  ev_tenant_key :: "string option"
  ev_message_id :: string
  ev_root_id :: "string option"
  ev_parent_id :: "string option"
  ev_chat_id :: string
  ev_chat_type :: chat_type
  ev_message_type :: string
  ev_content :: string
  ev_mentions :: "mention list option"

text \<open>
  \<open>FeishuMessageContext\<close> is declared in types.ts; the fields are those that bot.ts
  writes and reads. \<open>parseFeishuMessageEvent\<close> never sets \<open>senderName\<close>, which
  \<open>handleFeishuMessage\<close> reads. The event's fields carry the prefix \<open>ev_\<close>, the
  context's \<open>ctx_\<close>.
\<close>

record FeishuMessageContext =
  ctx_chatId :: string
  ctx_messageId :: string
  ctx_senderId :: string
  ctx_senderOpenId :: string
  ctx_senderName :: "string option"
  ctx_chatType :: chat_type
  ctx_mentionedBot :: bool
  ctx_rootId :: "string option"
  ctx_parentId :: "string option"
  ctx_content :: string
  ctx_contentType :: string

subsection \<open>Mentions\<close>

definition checkBotMentioned :: "FeishuMessageEvent \<Rightarrow> string option \<Rightarrow> bool" where
  "checkBotMentioned event botOpenId =
     (let ms = (case ev_mentions event of Some l \<Rightarrow> l | None \<Rightarrow> []) in
      if length ms = 0 then False
      else if falsy_str botOpenId then length ms > 0
      else list_ex (\<lambda>m. open_id (m_id m) = botOpenId) ms)"

text \<open>
  \<open>text.replace(new RegExp(p, "g"), "")\<close> scans the text from the left: where the
  pattern matches it deletes the match and goes on behind it, elsewhere it keeps the
  character; an empty match deletes nothing and the scan moves on by one character. A
  matcher gives the rest of the text behind a match at its start. \<open>stripBotMention\<close>
  builds its two patterns from the mention's name and key, unescaped. When the name or
  the key contains no character that is special in a regular expression
  (\<open>regex_literal\<close>), the pattern matches that very text: \<open>match_literal\<close> is the pattern
  of the key, and \<open>match_at_name\<close> the pattern \<open>@name\s*\<close>, which matches \<open>@name\<close> and all
  the white space that follows it.
\<close>

fun strip_prefix :: "string \<Rightarrow> string \<Rightarrow> string option" where
  "strip_prefix [] s = Some s"
| "strip_prefix (p # ps) [] = None"
| "strip_prefix (p # ps) (c # cs) = (if p = c then strip_prefix ps cs else None)"

definition match_literal :: "string \<Rightarrow> string \<Rightarrow> string option" where
  "match_literal p s = strip_prefix p s"

definition match_at_name :: "string \<Rightarrow> string \<Rightarrow> string option" where
  "match_at_name name s = map_option (dropWhile is_space) (strip_prefix (CHR ''@'' # name) s)"

function remove_matches :: "(string \<Rightarrow> string option) \<Rightarrow> string \<Rightarrow> string" where
  "remove_matches m [] = []"
| "remove_matches m (c # cs) =
     (case m (c # cs) of
        Some rest \<Rightarrow>
          if length rest < length (c # cs) then remove_matches m rest
          else c # remove_matches m cs
      | None \<Rightarrow> c # remove_matches m cs)"
  by pat_completeness auto
termination
  by (relation "measure (\<lambda>(m, s). length s)") auto

definition regex_literal :: "string \<Rightarrow> bool" where
  "regex_literal s \<longleftrightarrow> list_all (\<lambda>c. c \<notin> set (CHR 0x5C # ''^$.|?*+()[]{}'')) s"

text \<open>
  A name or key with a special character is compiled as the regular expression it
  spells: \<open>new RegExp\<close> throws a SyntaxError where it spells none (the name \<open>C++\<close>), and
  otherwise the pattern matches as the language's engine decides (\<open>Bot (dev)\<close> has a
  group and matches \<open>Bot dev\<close>). The engine is the parameter \<open>RegExp_remove\<close>: from the
  pattern's source and the text to \<open>text.replace(new RegExp(source, "g"), "")\<close>, or
  to the error thrown. An exception is \<open>Inl\<close>.
\<close>

definition name_pattern :: "string \<Rightarrow> string" where
  "name_pattern name = CHR ''@'' # name @ CHR 0x5C # ''s*''"

definition remove_name ::
  "(string \<Rightarrow> string \<Rightarrow> js_error + string) \<Rightarrow> string \<Rightarrow> string \<Rightarrow> js_error + string" where
  "remove_name RegExp_remove name s =
     (if regex_literal name then Inr (remove_matches (match_at_name name) s)
      else RegExp_remove (name_pattern name) s)"

definition remove_key ::
  "(string \<Rightarrow> string \<Rightarrow> js_error + string) \<Rightarrow> string \<Rightarrow> string \<Rightarrow> js_error + string" where
  "remove_key RegExp_remove key s =
     (if regex_literal key then Inr (remove_matches (match_literal key) s)
      else RegExp_remove key s)"

fun strip_loop ::
  "(string \<Rightarrow> string \<Rightarrow> js_error + string) \<Rightarrow> string \<Rightarrow> mention list \<Rightarrow> js_error + string" where
  "strip_loop RegExp_remove result [] = Inr result"
| "strip_loop RegExp_remove result (mention # rest) =
     (case remove_name RegExp_remove (m_name mention) result of
        Inl e \<Rightarrow> Inl e
      | Inr without_name \<Rightarrow>
          (case remove_key RegExp_remove (m_key mention) (trim without_name) of
             Inl e \<Rightarrow> Inl e
           | Inr without_key \<Rightarrow> strip_loop RegExp_remove (trim without_key) rest))"

definition stripBotMention ::
  "(string \<Rightarrow> string \<Rightarrow> js_error + string) \<Rightarrow> string \<Rightarrow> mention list option \<Rightarrow>
     js_error + string" where
  "stripBotMention RegExp_remove text ms =
     (case ms of
        None \<Rightarrow> Inr text
      | Some l \<Rightarrow> if length l = 0 then Inr text else strip_loop RegExp_remove text l)"

fun occurs_in :: "string \<Rightarrow> string \<Rightarrow> bool" where
  "occurs_in p [] = (p = [])"
| "occurs_in p (c # cs) = (strip_prefix p (c # cs) \<noteq> None \<or> occurs_in p cs)"

subsection \<open>Message content\<close>

text \<open>The fallback text of a rich-text message, a bracketed Chinese phrase, in UTF-8.\<close>

definition post_placeholder :: string where
  "post_placeholder =
     CHR ''['' #
     [CHR 0xE5, CHR 0xAF, CHR 0x8C, CHR 0xE6, CHR 0x96, CHR 0x87, CHR 0xE6, CHR 0x9C, CHR 0xAC,
      CHR 0xE6, CHR 0xB6, CHR 0x88, CHR 0xE6, CHR 0x81, CHR 0xAF] @ '']''"

definition str_prop :: "json \<Rightarrow> string \<Rightarrow> string option" where
  "str_prop v k = (case get_prop v k of Inr x \<Rightarrow> str_field x | Inl e \<Rightarrow> None)"

record post_content =
  pc_textContent :: string
  pc_imageKeys :: "string list"

text \<open>One element of a paragraph: the body of the inner loop of \<open>parsePostContent\<close>.\<close>

definition post_element ::
  "json \<Rightarrow> string \<times> string list \<Rightarrow> js_error + string \<times> string list" where
  "post_element element acc =
     (case get_prop element ''tag'' of
        Inl e \<Rightarrow> Inl e
      | Inr tag \<Rightarrow>
          if tag = Some (JStr ''text'') then
            Inr (fst acc @ or_empty (str_prop element ''text''), snd acc)
          else if tag = Some (JStr ''a'') then
            Inr (fst acc @ or_empty (or_else (str_prop element ''text'') (str_prop element ''href'')),
                 snd acc)
          else if tag = Some (JStr ''at'') then
            Inr (fst acc @ ''@'' @
                   or_empty (or_else (str_prop element ''user_name'') (str_prop element ''user_id'')),
                 snd acc)
          else
            (case str_prop element ''image_key'' of
               Some k \<Rightarrow>
                 if tag = Some (JStr ''img'') \<and> k \<noteq> [] then Inr (fst acc, snd acc @ [k])
                 else Inr acc
             | None \<Rightarrow> Inr acc))"

fun post_elements ::
  "json list \<Rightarrow> string \<times> string list \<Rightarrow> js_error + string \<times> string list" where
  "post_elements [] acc = Inr acc"
| "post_elements (element # rest) acc =
     (case post_element element acc of
        Inl e \<Rightarrow> Inl e
      | Inr acc' \<Rightarrow> post_elements rest acc')"

fun post_paragraphs ::
  "json list \<Rightarrow> string \<times> string list \<Rightarrow> js_error + string \<times> string list" where
  "post_paragraphs [] acc = Inr acc"
| "post_paragraphs (JArr elements # rest) acc =
     (case post_elements elements acc of
        Inl e \<Rightarrow> Inl e
      | Inr acc' \<Rightarrow> post_paragraphs rest (fst acc' @ [CHR 0x0A], snd acc'))"
| "post_paragraphs (paragraph # rest) acc = post_paragraphs rest acc"

text \<open>
  \<open>parsed.content || []\<close> and the outer \<open>for ... of\<close>: an array is walked, a falsy value
  gives no paragraph, a non-empty string is walked character by character (no
  character is an array, so nothing happens), and any other value is not iterable: a
  TypeError.
\<close>

fun content_blocks :: "json option \<Rightarrow> js_error + json list" where
  "content_blocks (Some (JArr blocks)) = Inr blocks"
| "content_blocks (Some (JStr s)) = Inr []"
| "content_blocks v = (if truthy v then Inl TypeError else Inr [])"

definition post_failed :: post_content where
  "post_failed = \<lparr>pc_textContent = post_placeholder, pc_imageKeys = []\<rparr>"

definition parsePostContent :: "(string \<Rightarrow> json option) \<Rightarrow> string \<Rightarrow> post_content" where
  "parsePostContent JSON_parse content =
     (case JSON_parse content of
        None \<Rightarrow> post_failed
      | Some parsed \<Rightarrow>
          (case get_prop parsed ''title'' of
             Inl e \<Rightarrow> post_failed
           | Inr t \<Rightarrow>
               (let title = or_empty (str_field t) in
                case content_blocks (case get_prop parsed ''content'' of Inr c \<Rightarrow> c | Inl e \<Rightarrow> None) of
                  Inl e \<Rightarrow> post_failed
                | Inr contentBlocks \<Rightarrow>
                    (case post_paragraphs contentBlocks
                            (if title \<noteq> [] then title @ [CHR 0x0A, CHR 0x0A] else [], []) of
                       Inl e \<Rightarrow> post_failed
                     | Inr acc \<Rightarrow>
                         \<lparr>pc_textContent = (if trim (fst acc) = [] then post_placeholder else trim (fst acc)),
                          pc_imageKeys = snd acc\<rparr>))))"

definition parseMessageContent :: "(string \<Rightarrow> json option) \<Rightarrow> string \<Rightarrow> string \<Rightarrow> string" where
  "parseMessageContent JSON_parse content messageType =
     (case JSON_parse content of
        None \<Rightarrow> content
      | Some parsed \<Rightarrow>
          if messageType = ''text'' then
            (case get_prop parsed ''text'' of
               Inl e \<Rightarrow> content
             | Inr v \<Rightarrow> or_empty (str_field v))
          else if messageType = ''post'' then pc_textContent (parsePostContent JSON_parse content)
          else content)"

record media_keys =
  mk_imageKey :: "string option"
  mk_fileKey :: "string option"
  mk_fileName :: "string option"

definition no_keys :: media_keys where
  "no_keys = \<lparr>mk_imageKey = None, mk_fileKey = None, mk_fileName = None\<rparr>"

definition parseMediaKeys :: "(string \<Rightarrow> json option) \<Rightarrow> string \<Rightarrow> string \<Rightarrow> media_keys" where
  "parseMediaKeys JSON_parse content messageType =
     (case JSON_parse content of
        None \<Rightarrow> no_keys
      | Some parsed \<Rightarrow>
          if messageType = ''image'' then
            (case get_prop parsed ''image_key'' of
               Inl e \<Rightarrow> no_keys
             | Inr v \<Rightarrow> no_keys\<lparr>mk_imageKey := str_field v\<rparr>)
          else if messageType = ''file'' then
            (case get_prop parsed ''file_key'' of
               Inl e \<Rightarrow> no_keys
             | Inr v \<Rightarrow> no_keys\<lparr>mk_fileKey := str_field v, mk_fileName := str_prop parsed ''file_name''\<rparr>)
          else if messageType = ''audio'' then
            (case get_prop parsed ''file_key'' of
               Inl e \<Rightarrow> no_keys
             | Inr v \<Rightarrow> no_keys\<lparr>mk_fileKey := str_field v\<rparr>)
          else if messageType = ''video'' then
            (case get_prop parsed ''file_key'' of
               Inl e \<Rightarrow> no_keys
             | Inr v \<Rightarrow> no_keys\<lparr>mk_fileKey := str_field v, mk_imageKey := str_prop parsed ''image_key''\<rparr>)
          else if messageType = ''sticker'' then
            (case get_prop parsed ''file_key'' of
               Inl e \<Rightarrow> no_keys
             | Inr v \<Rightarrow> no_keys\<lparr>mk_fileKey := str_field v\<rparr>)
          else no_keys)"

definition inferPlaceholder :: "string \<Rightarrow> string" where
  "inferPlaceholder messageType =
     (if messageType = ''image'' then ''<media:image>''
      else if messageType = ''file'' then ''<media:document>''
      else if messageType = ''audio'' then ''<media:audio>''
      else if messageType = ''video'' then ''<media:video>''
      else if messageType = ''sticker'' then ''<media:sticker>''
      else ''<media:document>'')"

text \<open>
  \<open>parseFeishuMessageEvent\<close> throws what \<open>stripBotMention\<close> throws, and nothing else.
\<close>

definition parseFeishuMessageEvent ::
  "(string \<Rightarrow> json option) \<Rightarrow> (string \<Rightarrow> string \<Rightarrow> js_error + string) \<Rightarrow>
     FeishuMessageEvent \<Rightarrow> string option \<Rightarrow> js_error + FeishuMessageContext" where
  "parseFeishuMessageEvent JSON_parse RegExp_remove event botOpenId =
     (let rawContent = parseMessageContent JSON_parse (ev_content event) (ev_message_type event);
          mentioned = checkBotMentioned event botOpenId
      in case stripBotMention RegExp_remove rawContent (ev_mentions event) of
           Inl e \<Rightarrow> Inl e
         | Inr stripped \<Rightarrow>
             Inr \<lparr>ctx_chatId = ev_chat_id event,
                  ctx_messageId = ev_message_id event,
                  ctx_senderId =
                    or_empty (or_else (user_id (ev_sender_id event)) (open_id (ev_sender_id event))),
                  ctx_senderOpenId = or_empty (open_id (ev_sender_id event)),
                  ctx_senderName = None,
                  ctx_chatType = ev_chat_type event,
                  ctx_mentionedBot = mentioned,
                  ctx_rootId = or_else (ev_root_id event) None,
                  ctx_parentId = or_else (ev_parent_id event) None,
                  ctx_content = stripped,
                  ctx_contentType = ev_message_type event\<rparr>)"

section \<open>Collaborators and effects\<close>

text \<open>
  The handler talks to the platform, the host runtime and the agent through calls that
  may throw. The model keeps the list of the calls made so far and lets every
  collaborator answer as a function of that list and of its arguments, so the same call
  may succeed once and fail later. \<open>getFeishuRuntime()\<close> returns the runtime that
  index.ts installs at registration; its functions, the platform calls of media.ts and
  send.ts, \<open>JSON.parse\<close>, the regular-expression engine, the clock and the SDK's
  constant are the fields of \<open>collaborators\<close>. A thrown error is \<open>Inl\<close>; \<open>String_err\<close> is
  \<open>String(err)\<close>.
\<close>

type_synonym buffer = string

record download_result =
  dl_buffer :: buffer
  dl_contentType :: "string option"
  dl_fileName :: "string option"

record saved_media =
  sv_path :: string
  sv_contentType :: "string option"

record FeishuMediaInfo =
  mi_path :: string
  mi_contentType :: "string option"
  mi_placeholder :: string

record agent_route =
  rt_sessionKey :: string
  rt_accountId :: string
  rt_agentId :: string

record media_payload =
  MediaPath :: "string option"
  MediaType :: "string option"
  MediaUrl :: "string option"
  MediaPaths :: "string list option"
  MediaUrls :: "string list option"
  MediaTypes :: "string list option"

record inbound_payload =
  Body :: string
  RawBody :: string
  CommandBody :: string
  From :: string
  To :: string
  SessionKey :: string
  AccountId :: string
  ChatType :: string
  GroupSubject :: "string option"
  SenderName :: string
  SenderId :: string
  Provider :: string
  Surface :: string
  MessageSid :: string
  Timestamp :: int
  WasMentioned :: bool
  CommandAuthorized :: bool
  OriginatingChannel :: string
  OriginatingTo :: string
  Media :: media_payload

record HistoryEntry =
  he_sender :: string
  he_body :: string
  he_timestamp :: int
  he_messageId :: string

datatype call =
    Log string
  | ErrorLog string
  | ResolveAgentRoute string string
  | EnqueueSystemEvent string string string
  | DownloadMessageResource string string string
  | DetectMime buffer
  | SaveMediaBuffer buffer "string option" string int "string option"
  | GetMessage string
  | ResolveEnvelopeFormatOptions
  | FormatAgentEnvelope string int string
  | FinalizeInboundContext inbound_payload
  | CreateFeishuReplyDispatcher string string string
  | DispatchReplyFromConfig inbound_payload
  | MarkDispatchIdle
  | SendMessage string string "string option"
  | SendMarkdownCard string string "string option"

record collaborators =
  JSON_parse :: "string \<Rightarrow> json option"
  RegExp_remove :: "string \<Rightarrow> string \<Rightarrow> js_error + string"
  DEFAULT_GROUP_HISTORY_LIMIT :: int
  clock :: "call list \<Rightarrow> int"
  resolveAgentRoute :: "call list \<Rightarrow> string \<Rightarrow> string \<Rightarrow> js_error + agent_route"
  enqueueSystemEvent :: "call list \<Rightarrow> string \<Rightarrow> string \<Rightarrow> string \<Rightarrow> js_error + unit"
  downloadMessageResourceFeishu ::
    "call list \<Rightarrow> string \<Rightarrow> string \<Rightarrow> string \<Rightarrow> js_error + download_result"
  detectMime :: "call list \<Rightarrow> buffer \<Rightarrow> js_error + string option"
  saveMediaBuffer ::
    "call list \<Rightarrow> buffer \<Rightarrow> string option \<Rightarrow> string \<Rightarrow> int \<Rightarrow> string option \<Rightarrow>
       js_error + saved_media"
  getMessageFeishu :: "call list \<Rightarrow> string \<Rightarrow> js_error + string option"
  resolveEnvelopeFormatOptions :: "call list \<Rightarrow> js_error + unit"
  formatAgentEnvelope :: "call list \<Rightarrow> string \<Rightarrow> int \<Rightarrow> string \<Rightarrow> js_error + string"
  historyContext :: "string list \<Rightarrow> string \<Rightarrow> string"
  finalizeInboundContext :: "call list \<Rightarrow> inbound_payload \<Rightarrow> js_error + inbound_payload"
  createFeishuReplyDispatcher :: "call list \<Rightarrow> string \<Rightarrow> string \<Rightarrow> string \<Rightarrow> js_error + unit"
  dispatchReplyFromConfig :: "call list \<Rightarrow> inbound_payload \<Rightarrow> js_error + bool \<times> int"
  markDispatchIdle :: "call list \<Rightarrow> js_error + unit"
  chunkTextWithMode :: "string \<Rightarrow> int \<Rightarrow> string \<Rightarrow> string list"
  convertMarkdownTables :: "string \<Rightarrow> string \<Rightarrow> string"
  sendMessageFeishu :: "call list \<Rightarrow> string \<Rightarrow> string \<Rightarrow> string option \<Rightarrow> js_error + unit"
  sendMarkdownCardFeishu ::
    "call list \<Rightarrow> string \<Rightarrow> string \<Rightarrow> string option \<Rightarrow> js_error + unit"

text \<open>
  The state: the calls made so far and \<open>chatHistories\<close>, the map the caller shares
  between events (\<open>None\<close> when the caller passes none). An asynchronous function is a
  function from the state to its outcome and the new state.
\<close>

record world =
  calls :: "call list"
  chatHistories :: "(string \<Rightarrow> HistoryEntry list option) option"

type_synonym 'a io = "world \<Rightarrow> (js_error + 'a) \<times> world"

definition ret :: "'a \<Rightarrow> 'a io" where
  "ret a w = (Inr a, w)"

definition throw :: "js_error \<Rightarrow> 'a io" where
  "throw e w = (Inl e, w)"

definition bnd :: "'a io \<Rightarrow> ('a \<Rightarrow> 'b io) \<Rightarrow> 'b io" where
  "bnd f g w = (case f w of (Inl e, w') \<Rightarrow> (Inl e, w') | (Inr a, w') \<Rightarrow> g a w')"

definition ask :: "call \<Rightarrow> (call list \<Rightarrow> js_error + 'a) \<Rightarrow> 'a io" where
  "ask c answer w = (answer (calls w), w\<lparr>calls := calls w @ [c]\<rparr>)"

definition emit :: "call \<Rightarrow> unit io" where
  "emit c w = (Inr (), w\<lparr>calls := calls w @ [c]\<rparr>)"

definition try_catch :: "'a io \<Rightarrow> (js_error \<Rightarrow> 'a io) \<Rightarrow> 'a io" where
  "try_catch body handler w =
     (case body w of (Inl e, w') \<Rightarrow> handler e w' | (Inr a, w') \<Rightarrow> (Inr a, w'))"

fun String_err :: "js_error \<Rightarrow> string" where
  "String_err TypeError = ''TypeError''"
| "String_err (Thrown msg) = msg"

section \<open>Media resolution (bot.ts)\<close>

text \<open>
  \<open>resolveFeishuMediaList\<close> is called from the \<open>try\<close> block of \<open>handleFeishuMessage\<close>
  only, behind the handler's own \<open>getFeishuRuntime()\<close>; the runtime it reads again is the
  parameter \<open>E\<close>. The caller always passes \<open>log\<close>.
\<close>

text \<open>\<open>if (!contentType) contentType = await core.media.detectMime({ buffer })\<close>.\<close>

definition detect_contentType :: "collaborators \<Rightarrow> download_result \<Rightarrow> string option io" where
  "detect_contentType E result =
     (if falsy_str (dl_contentType result)
      then ask (DetectMime (dl_buffer result)) (\<lambda>cs. detectMime E cs (dl_buffer result))
      else ret (dl_contentType result))"

text \<open>The body of the loop over the embedded images of a rich-text message.\<close>

definition resolve_embedded_image ::
  "collaborators \<Rightarrow> string \<Rightarrow> int \<Rightarrow> FeishuMediaInfo list \<Rightarrow> string \<Rightarrow> FeishuMediaInfo list io" where
  "resolve_embedded_image E messageId maxBytes out imgKey =
     try_catch
       (bnd (ask (DownloadMessageResource messageId imgKey ''image'')
               (\<lambda>cs. downloadMessageResourceFeishu E cs messageId imgKey ''image'')) (\<lambda>result.
        bnd (detect_contentType E result) (\<lambda>ctype.
        bnd (ask (SaveMediaBuffer (dl_buffer result) ctype ''inbound'' maxBytes None)
               (\<lambda>cs. saveMediaBuffer E cs (dl_buffer result) ctype ''inbound'' maxBytes None)) (\<lambda>saved.
        bnd (emit (Log (''feishu: downloaded embedded image '' @ imgKey @ '', saved to '' @
                          sv_path saved))) (\<lambda>u.
        ret (out @ [\<lparr>mi_path = sv_path saved, mi_contentType = sv_contentType saved,
                     mi_placeholder = ''<media:image>''\<rparr>]))))))
       (\<lambda>err.
        bnd (emit (Log (''feishu: failed to download embedded image '' @ imgKey @ '': '' @
                          String_err err))) (\<lambda>u.
        ret out))"

fun resolve_embedded_images ::
  "collaborators \<Rightarrow> string \<Rightarrow> int \<Rightarrow> string list \<Rightarrow> FeishuMediaInfo list \<Rightarrow> FeishuMediaInfo list io" where
  "resolve_embedded_images E messageId maxBytes [] out w = ret out w"
| "resolve_embedded_images E messageId maxBytes (imgKey # rest) out w =
     (case resolve_embedded_image E messageId maxBytes out imgKey w of
        (Inl e, w') \<Rightarrow> (Inl e, w')
      | (Inr out', w') \<Rightarrow> resolve_embedded_images E messageId maxBytes rest out' w')"

definition resolve_single_media ::
  "collaborators \<Rightarrow> string \<Rightarrow> string \<Rightarrow> int \<Rightarrow> media_keys \<Rightarrow> FeishuMediaInfo list io" where
  "resolve_single_media E messageId messageType maxBytes mediaKeys =
     try_catch
       (case or_else (mk_imageKey mediaKeys) (mk_fileKey mediaKeys) of
          None \<Rightarrow> ret []
        | Some fKey \<Rightarrow>
            if fKey = [] then ret []
            else
              (let resourceType = (if messageType = ''image'' then ''image'' else ''file'') in
               bnd (ask (DownloadMessageResource messageId fKey resourceType)
                      (\<lambda>cs. downloadMessageResourceFeishu E cs messageId fKey resourceType)) (\<lambda>result.
               bnd (detect_contentType E result) (\<lambda>ctype.
               bnd (ask (SaveMediaBuffer (dl_buffer result) ctype ''inbound'' maxBytes
                           (or_else (dl_fileName result) (mk_fileName mediaKeys)))
                      (\<lambda>cs. saveMediaBuffer E cs (dl_buffer result) ctype ''inbound'' maxBytes
                           (or_else (dl_fileName result) (mk_fileName mediaKeys)))) (\<lambda>saved.
               bnd (emit (Log (''feishu: downloaded '' @ messageType @ '' media, saved to '' @
                                 sv_path saved))) (\<lambda>u.
               ret [\<lparr>mi_path = sv_path saved, mi_contentType = sv_contentType saved,
                     mi_placeholder = inferPlaceholder messageType\<rparr>]))))))
       (\<lambda>err.
        bnd (emit (Log (''feishu: failed to download '' @ messageType @ '' media: '' @
                          String_err err))) (\<lambda>u.
        ret []))"

definition resolveFeishuMediaList ::
  "collaborators \<Rightarrow> string \<Rightarrow> string \<Rightarrow> string \<Rightarrow> int \<Rightarrow> FeishuMediaInfo list io" where
  "resolveFeishuMediaList E messageId messageType content maxBytes =
     (if messageType \<notin> set [''image'', ''file'', ''audio'', ''video'', ''sticker'', ''post'']
      then ret []
      else if messageType = ''post'' then
        (let keys = pc_imageKeys (parsePostContent (JSON_parse E) content) in
         if length keys = 0 then ret []
         else
           bnd (emit (Log (''feishu: post message contains '' @ dec_nat (length keys) @
                             '' embedded image(s)''))) (\<lambda>u.
           resolve_embedded_images E messageId maxBytes keys []))
      else
        (let mediaKeys = parseMediaKeys (JSON_parse E) content messageType in
         if falsy_str (mk_imageKey mediaKeys) \<and> falsy_str (mk_fileKey mediaKeys) then ret []
         else resolve_single_media E messageId messageType maxBytes mediaKeys))"

definition buildFeishuMediaPayload :: "FeishuMediaInfo list \<Rightarrow> media_payload" where
  "buildFeishuMediaPayload mediaList =
     (let first = (case mediaList of [] \<Rightarrow> None | x # xs \<Rightarrow> Some x);
          mediaPaths = map mi_path mediaList;
          mediaTypes = concat (map (\<lambda>media. case mi_contentType media of
                                               Some t \<Rightarrow> if t = [] then [] else [t]
                                             | None \<Rightarrow> []) mediaList)
      in \<lparr>MediaPath = map_option mi_path first,
          MediaType = Option.bind first mi_contentType,
          MediaUrl = map_option mi_path first,
          MediaPaths = (if length mediaPaths > 0 then Some mediaPaths else None),
          MediaUrls = (if length mediaPaths > 0 then Some mediaPaths else None),
          MediaTypes = (if length mediaTypes > 0 then Some mediaTypes else None)\<rparr>)"

section \<open>History buffer\<close>

text \<open>
  Modelled from the spec: \<open>recordPendingHistoryEntryIfEnabled\<close>,
  \<open>clearHistoryEntriesIfEnabled\<close> and \<open>buildPendingHistoryContextFromMap\<close> are functions
  of the plugin SDK, which is not under src/. Section 4.3 of the specification gives
  their behaviour: \<open>record\<close> appends and then evicts the oldest entries beyond the
  limit, and does nothing when the limit is 0; \<open>clear\<close> empties the conversation's
  buffer; \<open>drainAsContext\<close> renders every buffered entry, oldest first, followed by the
  current message, and does not change the buffer; a limit of 0 disables buffering
  entirely. How the rendered entries and the current message are joined is the
  collaborator \<open>historyContext\<close>.
\<close>

definition recordPendingHistoryEntryIfEnabled ::
  "(string \<Rightarrow> HistoryEntry list option) \<Rightarrow> string \<Rightarrow> int \<Rightarrow> HistoryEntry \<Rightarrow>
     (string \<Rightarrow> HistoryEntry list option)" where
  "recordPendingHistoryEntryIfEnabled historyMap historyKey limit entry =
     (if limit \<le> 0 then historyMap
      else
        (let history = (case historyMap historyKey of Some h \<Rightarrow> h | None \<Rightarrow> []) @ [entry]
         in historyMap(historyKey \<mapsto> drop (length history - nat limit) history)))"

definition clearHistoryEntriesIfEnabled ::
  "(string \<Rightarrow> HistoryEntry list option) \<Rightarrow> string \<Rightarrow> int \<Rightarrow>
     (string \<Rightarrow> HistoryEntry list option)" where
  "clearHistoryEntriesIfEnabled historyMap historyKey limit =
     (if limit \<le> 0 then historyMap else historyMap(historyKey \<mapsto> []))"

text \<open>
  The \<open>formatEntry\<close> callback that \<open>handleFeishuMessage\<close> passes renders an entry through
  \<open>formatAgentEnvelope\<close>.
\<close>

definition formatEntry :: "collaborators \<Rightarrow> string \<Rightarrow> HistoryEntry \<Rightarrow> string io" where
  "formatEntry E cid entry =
     ask (FormatAgentEnvelope (cid @ '':'' @ he_sender entry) (he_timestamp entry)
            (he_sender entry @ '': '' @ he_body entry))
         (\<lambda>cs. formatAgentEnvelope E cs (cid @ '':'' @ he_sender entry) (he_timestamp entry)
            (he_sender entry @ '': '' @ he_body entry))"

fun format_entries :: "collaborators \<Rightarrow> string \<Rightarrow> HistoryEntry list \<Rightarrow> string list io" where
  "format_entries E cid [] w = ret [] w"
| "format_entries E cid (entry # rest) w =
     (case formatEntry E cid entry w of
        (Inl e, w') \<Rightarrow> (Inl e, w')
      | (Inr line, w') \<Rightarrow>
          (case format_entries E cid rest w' of
             (Inl e, w'') \<Rightarrow> (Inl e, w'')
           | (Inr lines, w'') \<Rightarrow> (Inr (line # lines), w'')))"

definition buildPendingHistoryContextFromMap ::
  "collaborators \<Rightarrow> (string \<Rightarrow> HistoryEntry list option) \<Rightarrow> string \<Rightarrow> int \<Rightarrow> string \<Rightarrow> string io" where
  "buildPendingHistoryContextFromMap E historyMap historyKey limit currentMessage =
     (if limit \<le> 0 then ret currentMessage
      else
        bnd (format_entries E historyKey
               (case historyMap historyKey of Some h \<Rightarrow> h | None \<Rightarrow> [])) (\<lambda>lines.
        ret (historyContext E lines currentMessage)))"

section \<open>The message handler (bot.ts)\<close>

text \<open>
  \<open>ClawdbotConfig\<close>: the handler reads \<open>cfg.channels?.feishu\<close> and
  \<open>cfg.messages?.groupChat?.historyLimit\<close>; the rest of the configuration only reaches
  the collaborators.
\<close>

record ClawdbotConfig =
  channels_feishu :: "FeishuConfig option"
  groupChat_historyLimit :: "int option"

text \<open>\<open>text.replace(/\s+/g, " ")\<close>: every run of white space becomes one space.\<close>

function collapse_ws :: "string \<Rightarrow> string" where
  "collapse_ws [] = []"
| "collapse_ws (c # cs) =
     (if is_space c then CHR 0x20 # collapse_ws (dropWhile is_space cs) else c # collapse_ws cs)"
  by pat_completeness auto
termination
  by (relation "measure length") (auto simp: length_dropWhile_le less_Suc_eq_le)

text \<open>The local \<open>historyLimit\<close> of \<open>handleFeishuMessage\<close>.\<close>

definition history_limit :: "collaborators \<Rightarrow> ClawdbotConfig \<Rightarrow> int" where
  "history_limit E cfg =
     max 0 (case Option.bind (channels_feishu cfg) cfg_historyLimit of
              Some n \<Rightarrow> n
            | None \<Rightarrow>
                (case groupChat_historyLimit cfg of
                   Some n \<Rightarrow> n
                 | None \<Rightarrow> DEFAULT_GROUP_HISTORY_LIMIT E))"

text \<open>
  The locals \<open>senderAllowFrom\<close>, \<open>allowed\<close> and \<open>requireMention\<close> of the group branch,
  and \<open>match.allowed\<close> of the direct-message branch.
\<close>

definition sender_allowFrom :: "FeishuConfig option \<Rightarrow> FeishuMessageContext \<Rightarrow> allow_entry list" where
  "sender_allowFrom feishuCfg ctx =
     (let groupAllowFrom =
            (case Option.bind feishuCfg cfg_groupAllowFrom of Some l \<Rightarrow> l | None \<Rightarrow> []);
          groupConfig = resolveFeishuGroupConfig feishuCfg (Some (ctx_chatId ctx))
      in case Option.bind groupConfig g_allowFrom of Some l \<Rightarrow> l | None \<Rightarrow> groupAllowFrom)"

definition group_allowed :: "FeishuConfig option \<Rightarrow> FeishuMessageContext \<Rightarrow> bool" where
  "group_allowed feishuCfg ctx =
     isFeishuGroupAllowed
       (case Option.bind feishuCfg cfg_groupPolicy of Some gp \<Rightarrow> gp | None \<Rightarrow> GroupOpen)
       (sender_allowFrom feishuCfg ctx) (ctx_senderOpenId ctx) (ctx_senderName ctx)"

definition group_requireMention :: "FeishuConfig option \<Rightarrow> FeishuMessageContext \<Rightarrow> bool" where
  "group_requireMention feishuCfg ctx =
     resolveFeishuReplyPolicy False feishuCfg
       (resolveFeishuGroupConfig feishuCfg (Some (ctx_chatId ctx)))"

definition dm_allowed :: "FeishuConfig option \<Rightarrow> FeishuMessageContext \<Rightarrow> bool" where
  "dm_allowed feishuCfg ctx =
     (let dmPolicy = (case Option.bind feishuCfg cfg_dmPolicy of Some dp \<Rightarrow> dp | None \<Rightarrow> DmPairing);
          allowFrom = (case Option.bind feishuCfg cfg_allowFrom of Some l \<Rightarrow> l | None \<Rightarrow> [])
      in if dmPolicy = DmAllowlist
         then allowed (resolveFeishuAllowlistMatch allowFrom (ctx_senderOpenId ctx) None)
         else True)"

text \<open>The buffer-and-drop step: \<open>if (chatHistories) recordPendingHistoryEntryIfEnabled(...)\<close>.\<close>

definition record_pending :: "collaborators \<Rightarrow> FeishuMessageContext \<Rightarrow> int \<Rightarrow> unit io" where
  "record_pending E ctx limit w =
     (case chatHistories w of
        None \<Rightarrow> (Inr (), w)
      | Some historyMap \<Rightarrow>
          (Inr (),
           w\<lparr>chatHistories :=
               Some (recordPendingHistoryEntryIfEnabled historyMap (ctx_chatId ctx) limit
                       \<lparr>he_sender = ctx_senderOpenId ctx, he_body = ctx_content ctx,
                        he_timestamp = clock E (calls w), he_messageId = ctx_messageId ctx\<rparr>)\<rparr>))"

definition clear_pending :: "FeishuMessageContext \<Rightarrow> int \<Rightarrow> unit io" where
  "clear_pending ctx limit w =
     (case chatHistories w of
        None \<Rightarrow> (Inr (), w)
      | Some historyMap \<Rightarrow>
          if ctx_chatType ctx = ChatGroup \<and> ctx_chatId ctx \<noteq> [] then
            (Inr (),
             w\<lparr>chatHistories :=
                 Some (clearHistoryEntriesIfEnabled historyMap (ctx_chatId ctx) limit)\<rparr>)
          else (Inr (), w))"

definition fetch_quoted :: "collaborators \<Rightarrow> FeishuMessageContext \<Rightarrow> string option io" where
  "fetch_quoted E ctx =
     (case ctx_parentId ctx of
        None \<Rightarrow> ret None
      | Some pid \<Rightarrow>
          if pid = [] then ret None
          else
            try_catch
              (bnd (ask (GetMessage pid) (\<lambda>cs. getMessageFeishu E cs pid)) (\<lambda>quotedMsg.
               case quotedMsg of
                 None \<Rightarrow> ret None
               | Some q \<Rightarrow>
                   bnd (emit (Log (''feishu: fetched quoted message: '' @ take 100 q))) (\<lambda>u.
                   ret (Some q))))
              (\<lambda>err.
               bnd (emit (Log (''feishu: failed to fetch quoted message: '' @ String_err err))) (\<lambda>u.
               ret None)))"

definition combined_body :: "collaborators \<Rightarrow> FeishuMessageContext \<Rightarrow> int \<Rightarrow> string \<Rightarrow> string io" where
  "combined_body E ctx limit body w =
     (case chatHistories w of
        None \<Rightarrow> ret body w
      | Some historyMap \<Rightarrow>
          if ctx_chatType ctx = ChatGroup \<and> ctx_chatId ctx \<noteq> [] then
            buildPendingHistoryContextFromMap E historyMap (ctx_chatId ctx) limit body w
          else ret body w)"

definition bool_string :: "bool \<Rightarrow> string" where
  "bool_string b = (if b then ''true'' else ''false'')"

text \<open>The body of the \<open>try\<close> block of \<open>handleFeishuMessage\<close>.\<close>

definition dispatch_body ::
  "collaborators \<Rightarrow> ClawdbotConfig \<Rightarrow> FeishuMessageEvent \<Rightarrow> FeishuMessageContext \<Rightarrow> int \<Rightarrow> unit io" where
  "dispatch_body E cfg event ctx limit =
     (let feishuCfg = channels_feishu cfg;
          isGroup = (ctx_chatType ctx = ChatGroup);
          feishuFrom = ''feishu:'' @ ctx_senderOpenId ctx;
          feishuTo = (if isGroup then ''chat:'' @ ctx_chatId ctx else ''user:'' @ ctx_senderOpenId ctx);
          peerKind = (if isGroup then ''group'' else ''dm'');
          peerId = (if isGroup then ctx_chatId ctx else ctx_senderOpenId ctx);
          preview = take 160 (collapse_ws (ctx_content ctx));
          inboundLabel = (if isGroup then ''Feishu message in group '' @ ctx_chatId ctx
                          else ''Feishu DM from '' @ ctx_senderOpenId ctx);
          contextKey = ''feishu:message:'' @ ctx_chatId ctx @ '':'' @ ctx_messageId ctx;
          mediaMaxBytes =
            (case Option.bind feishuCfg cfg_mediaMaxMb of Some n \<Rightarrow> n | None \<Rightarrow> 30) * 1024 * 1024;
          envelopeFrom = (if isGroup then ctx_chatId ctx @ '':'' @ ctx_senderOpenId ctx
                          else ctx_senderOpenId ctx)
      in
      bnd (ask (ResolveAgentRoute peerKind peerId) (\<lambda>cs. resolveAgentRoute E cs peerKind peerId)) (\<lambda>route.
      bnd (ask (EnqueueSystemEvent (inboundLabel @ '': '' @ preview) (rt_sessionKey route) contextKey)
             (\<lambda>cs. enqueueSystemEvent E cs (inboundLabel @ '': '' @ preview) (rt_sessionKey route)
                      contextKey)) (\<lambda>u.
      bnd (resolveFeishuMediaList E (ctx_messageId ctx) (ev_message_type event) (ev_content event)
             mediaMaxBytes) (\<lambda>mediaList.
      bnd (fetch_quoted E ctx) (\<lambda>quotedContent.
      bnd (ask ResolveEnvelopeFormatOptions (resolveEnvelopeFormatOptions E)) (\<lambda>envelopeOptions.
      let messageBody =
            (if falsy_str quotedContent then ctx_content ctx
             else ''[Replying to: '' @ [CHR 0x22] @ or_empty quotedContent @ [CHR 0x22] @ '']'' @
                  [CHR 0x0A, CHR 0x0A] @
                  ctx_content ctx)
      in
      bnd (\<lambda>w. ask (FormatAgentEnvelope envelopeFrom (clock E (calls w)) messageBody)
                  (\<lambda>cs. formatAgentEnvelope E cs envelopeFrom (clock E cs) messageBody) w) (\<lambda>body.
      bnd (combined_body E ctx limit body) (\<lambda>combinedBody.
      bnd (\<lambda>w.
             (let payload =
                    \<lparr>Body = combinedBody, RawBody = ctx_content ctx, CommandBody = ctx_content ctx,
                     From = feishuFrom, To = feishuTo, SessionKey = rt_sessionKey route,
                     AccountId = rt_accountId route,
                     ChatType = (if isGroup then ''group'' else ''direct''),
                     GroupSubject = (if isGroup then Some (ctx_chatId ctx) else None),
                     SenderName = (case ctx_senderName ctx of Some n \<Rightarrow> n
                                   | None \<Rightarrow> ctx_senderOpenId ctx),
                     SenderId = ctx_senderOpenId ctx, Provider = ''feishu'', Surface = ''feishu'',
                     MessageSid = ctx_messageId ctx, Timestamp = clock E (calls w),
                     WasMentioned = ctx_mentionedBot ctx, CommandAuthorized = True,
                     OriginatingChannel = ''feishu'', OriginatingTo = feishuTo,
                     Media = buildFeishuMediaPayload mediaList\<rparr>
              in ask (FinalizeInboundContext payload) (\<lambda>cs. finalizeInboundContext E cs payload) w))
          (\<lambda>ctxPayload.
      bnd (ask (CreateFeishuReplyDispatcher (rt_agentId route) (ctx_chatId ctx) (ctx_messageId ctx))
             (\<lambda>cs. createFeishuReplyDispatcher E cs (rt_agentId route) (ctx_chatId ctx)
                      (ctx_messageId ctx))) (\<lambda>u.
      bnd (emit (Log (''feishu: dispatching to agent (session='' @ rt_sessionKey route @ '')''))) (\<lambda>u.
      bnd (ask (DispatchReplyFromConfig ctxPayload) (\<lambda>cs. dispatchReplyFromConfig E cs ctxPayload))
          (\<lambda>result.
      bnd (ask MarkDispatchIdle (markDispatchIdle E)) (\<lambda>u.
      bnd (clear_pending ctx limit) (\<lambda>u.
      emit (Log (''feishu: dispatch complete (queuedFinal='' @ bool_string (fst result) @
                   '', replies='' @ dec_int (snd result) @ '')''))))))))))))))))"

definition chat_type_string :: "chat_type \<Rightarrow> string" where
  "chat_type_string t = (case t of ChatP2p \<Rightarrow> ''p2p'' | ChatGroup \<Rightarrow> ''group'')"

text \<open>
  \<open>parseFeishuMessageEvent\<close> is called before the first log line and outside the \<open>try\<close>
  block: what it throws, the handler throws.
\<close>

definition handleFeishuMessage ::
  "collaborators \<Rightarrow> ClawdbotConfig \<Rightarrow> FeishuMessageEvent \<Rightarrow> string option \<Rightarrow> unit io" where
  "handleFeishuMessage E cfg event botOpenId =
     (case parseFeishuMessageEvent (JSON_parse E) (RegExp_remove E) event botOpenId of
        Inl e \<Rightarrow> throw e
      | Inr ctx \<Rightarrow>
          (let feishuCfg = channels_feishu cfg;
               isGroup = (ctx_chatType ctx = ChatGroup);
               limit = history_limit E cfg;
               dispatch =
                 try_catch (dispatch_body E cfg event ctx limit)
                   (\<lambda>err. emit (ErrorLog (''feishu: failed to dispatch message: '' @ String_err err)))
           in
           bnd (emit (Log (''feishu: received message from '' @ ctx_senderOpenId ctx @ '' in '' @
                             ctx_chatId ctx @ '' ('' @ chat_type_string (ctx_chatType ctx) @ '')''))) (\<lambda>u.
           if isGroup then
             if \<not> group_allowed feishuCfg ctx then
               emit (Log (''feishu: sender '' @ ctx_senderOpenId ctx @ '' not in group allowlist''))
             else if group_requireMention feishuCfg ctx \<and> \<not> ctx_mentionedBot ctx then
               bnd (emit (Log (''feishu: message in group '' @ ctx_chatId ctx @
                                 '' did not mention bot, recording to history''))) (\<lambda>u.
               record_pending E ctx limit)
             else dispatch
           else
             if \<not> dm_allowed feishuCfg ctx then
               emit (Log (''feishu: sender '' @ ctx_senderOpenId ctx @ '' not in DM allowlist''))
             else dispatch)))"

section \<open>Reply dispatcher (reply-dispatcher.ts)\<close>

subsection \<open>Regular expressions\<close>

text \<open>
  \<open>shouldUseCard\<close> tests its text against two regular expressions.
  \<open>RegExp.prototype.test\<close> asks whether some part of the text matches, so greedy and
  lazy quantifiers decide alike. A regular expression is a term of \<open>rx\<close>, matched by
  derivatives; \<open>lang\<close> is the set of strings it matches.
\<close>

datatype rx =
    Never
  | Eps
  | Sym "char \<Rightarrow> bool"
  | Seq rx rx
  | Alt rx rx
  | Star rx

fun nullable :: "rx \<Rightarrow> bool" where
  "nullable Never = False"
| "nullable Eps = True"
| "nullable (Sym p) = False"
| "nullable (Seq r s) = (nullable r \<and> nullable s)"
| "nullable (Alt r s) = (nullable r \<or> nullable s)"
| "nullable (Star r) = True"

fun deriv :: "char \<Rightarrow> rx \<Rightarrow> rx" where
  "deriv c Never = Never"
| "deriv c Eps = Never"
| "deriv c (Sym p) = (if p c then Eps else Never)"
| "deriv c (Seq r s) =
     (if nullable r then Alt (Seq (deriv c r) s) (deriv c s) else Seq (deriv c r) s)"
| "deriv c (Alt r s) = Alt (deriv c r) (deriv c s)"
| "deriv c (Star r) = Seq (deriv c r) (Star r)"

fun rx_match :: "rx \<Rightarrow> string \<Rightarrow> bool" where
  "rx_match r [] = nullable r"
| "rx_match r (c # cs) = rx_match (deriv c r) cs"

definition any_char :: rx where
  "any_char = Sym (\<lambda>c. True)"

definition rx_test :: "rx \<Rightarrow> string \<Rightarrow> bool" where
  "rx_test r s = rx_match (Seq (Star any_char) (Seq r (Star any_char))) s"

inductive_set star :: "string set \<Rightarrow> string set" for A :: "string set" where
  star_empty: "[] \<in> star A"
| star_step: "u \<in> A \<Longrightarrow> v \<in> star A \<Longrightarrow> u @ v \<in> star A"

fun lang :: "rx \<Rightarrow> string set" where
  "lang Never = {}"
| "lang Eps = {[]}"
| "lang (Sym p) = {[c] |c. p c}"
| "lang (Seq r s) = {u @ v |u v. u \<in> lang r \<and> v \<in> lang s}"
| "lang (Alt r s) = lang r \<union> lang s"
| "lang (Star r) = star (lang r)"

definition lit :: "string \<Rightarrow> rx" where
  "lit s = foldr (\<lambda>c r. Seq (Sym (\<lambda>d. d = c)) r) s Eps"

definition one_or_more :: "rx \<Rightarrow> rx" where
  "one_or_more r = Seq r (Star r)"

text \<open>\<open>.\<close> matches every character but a line terminator.\<close>

definition line_terminator :: "char \<Rightarrow> bool" where
  "line_terminator c \<longleftrightarrow> c = CHR 0x0A \<or> c = CHR 0x0D"

definition separator_char :: "char \<Rightarrow> bool" where
  "separator_char c \<longleftrightarrow> c \<in> set ''-:| ''"

text \<open>The pattern \<open>```[\s\S]*?```\<close>.\<close>

definition fence_rx :: rx where
  "fence_rx = Seq (lit ''```'') (Seq (Star any_char) (lit ''```''))"

text \<open>The pattern \<open>\|.+\|[\r\n]+\|[-:| ]+\|\<close>.\<close>

definition table_rx :: rx where
  "table_rx =
     Seq (lit ''|'') (Seq (one_or_more (Sym (\<lambda>c. \<not> line_terminator c))) (Seq (lit ''|'')
       (Seq (one_or_more (Sym line_terminator)) (Seq (lit ''|'')
         (Seq (one_or_more (Sym separator_char)) (lit ''|''))))))"

definition shouldUseCard :: "string \<Rightarrow> bool" where
  "shouldUseCard text =
     (if rx_test fence_rx text then True
      else if rx_test table_rx text then True
      else False)"

text \<open>
  What the two patterns look for, said on the text itself: two runs of three backticks
  one behind the other; and a header row \<open>|...|\<close> with at least one character between
  its bars and no line break, then line breaks, then a separator row \<open>|...|\<close> with at
  least one of \<open>-\<close>, \<open>:\<close>, \<open>|\<close> and space between its bars.
\<close>

definition has_fenced_block :: "string \<Rightarrow> bool" where
  "has_fenced_block text \<longleftrightarrow> (\<exists>a b c. text = a @ ''```'' @ b @ ''```'' @ c)"

definition has_table_pattern :: "string \<Rightarrow> bool" where
  "has_table_pattern text \<longleftrightarrow>
     (\<exists>a hdr nl sep b.
        text = a @ ''|'' @ hdr @ ''|'' @ nl @ ''|'' @ sep @ ''|'' @ b \<and>
        hdr \<noteq> [] \<and> list_all (\<lambda>c. \<not> line_terminator c) hdr \<and>
        nl \<noteq> [] \<and> list_all line_terminator nl \<and>
        sep \<noteq> [] \<and> list_all separator_char sep)"

subsection \<open>Delivery\<close>

text \<open>The loops \<open>for (const chunk of chunks) await send(...)\<close>: a send that throws ends the loop.\<close>

fun send_all :: "(string \<Rightarrow> unit io) \<Rightarrow> string list \<Rightarrow> unit io" where
  "send_all send [] w = ret () w"
| "send_all send (chunk # rest) w =
     (case send chunk w of
        (Inl e, w') \<Rightarrow> (Inl e, w')
      | (Inr u, w') \<Rightarrow> send_all send rest w')"

text \<open>
  The \<open>deliver\<close> callback of \<open>createFeishuReplyDispatcher\<close>. Its free variables are the
  parameters: the channel configuration \<open>cfg.channels?.feishu\<close>, the chat, the message
  replied to, and the chunk limit, chunk mode and table mode resolved by the runtime;
  \<open>payload_text\<close> is \<open>payload.text\<close>.
\<close>

definition deliver ::
  "collaborators \<Rightarrow> FeishuConfig option \<Rightarrow> string \<Rightarrow> string option \<Rightarrow> int \<Rightarrow> string \<Rightarrow> string \<Rightarrow>
     string option \<Rightarrow> unit io" where
  "deliver E feishuCfg cid replyToMessageId textChunkLimit chunkMode tableMode payload_text =
     bnd (emit (Log (''feishu deliver called: text='' @
                       (case payload_text of Some s \<Rightarrow> take 100 s | None \<Rightarrow> ''undefined'')))) (\<lambda>u.
     let text = (case payload_text of Some s \<Rightarrow> s | None \<Rightarrow> []) in
     if trim text = [] then emit (Log ''feishu deliver: empty text, skipping'')
     else
       (let renderMode =
              (case Option.bind feishuCfg cfg_renderMode of Some r \<Rightarrow> r | None \<Rightarrow> RenderAuto);
            useCard = (renderMode = RenderCard \<or> (renderMode = RenderAuto \<and> shouldUseCard text))
        in
        if useCard then
          (let chunks = chunkTextWithMode E text textChunkLimit chunkMode in
           bnd (emit (Log (''feishu deliver: sending '' @ dec_nat (length chunks) @
                             '' card chunks to '' @ cid))) (\<lambda>u.
           send_all
             (\<lambda>chunk. ask (SendMarkdownCard cid chunk replyToMessageId)
                         (\<lambda>cs. sendMarkdownCardFeishu E cs cid chunk replyToMessageId))
             chunks))
        else
          (let converted = convertMarkdownTables E text tableMode;
               chunks = chunkTextWithMode E converted textChunkLimit chunkMode
           in
           bnd (emit (Log (''feishu deliver: sending '' @ dec_nat (length chunks) @
                             '' text chunks to '' @ cid))) (\<lambda>u.
           send_all
             (\<lambda>chunk. ask (SendMessage cid chunk replyToMessageId)
                         (\<lambda>cs. sendMessageFeishu E cs cid chunk replyToMessageId))
             chunks))))"

section \<open>Observations and example inputs\<close>

text \<open>The calls that deliver a reply, the downloads, and a conversation's buffer.\<close>

fun is_delivery :: "call \<Rightarrow> bool" where
  "is_delivery (SendMessage to t r) = True"
| "is_delivery (SendMarkdownCard to t r) = True"
| "is_delivery c = False"

fun is_download :: "call \<Rightarrow> bool" where
  "is_download (DownloadMessageResource mid k t) = True"
| "is_download c = False"

fun is_log :: "call \<Rightarrow> bool" where
  "is_log (Log s) = True"
| "is_log c = False"

fun is_embedded_failure :: "call \<Rightarrow> bool" where
  "is_embedded_failure (Log s) =
     (strip_prefix ''feishu: failed to download embedded image '' s \<noteq> None)"
| "is_embedded_failure c = False"

definition history_of :: "world \<Rightarrow> string \<Rightarrow> HistoryEntry list" where
  "history_of w k =
     (case chatHistories w of
        None \<Rightarrow> []
      | Some historyMap \<Rightarrow> (case historyMap k of None \<Rightarrow> [] | Some h \<Rightarrow> h))"

text \<open>
  Predicates on asynchronous functions, for the proofs: a function keeps the shared
  histories, only adds calls, or starts with a given call; and the outcome of the
  \<open>try\<close> block of the handler, whose histories are cleared only behind a completed
  dispatch.
\<close>

definition keeps_histories :: "'a io \<Rightarrow> bool" where
  "keeps_histories f \<longleftrightarrow> (\<forall>w. chatHistories (snd (f w)) = chatHistories w)"

definition extends_calls :: "'a io \<Rightarrow> bool" where
  "extends_calls f \<longleftrightarrow> (\<forall>w. \<exists>more. calls (snd (f w)) = calls w @ more)"

definition first_call :: "call \<Rightarrow> 'a io \<Rightarrow> bool" where
  "first_call c f \<longleftrightarrow> (\<forall>w. \<exists>rest. calls (snd (f w)) = calls w @ c # rest)"

definition image_download :: "string \<Rightarrow> string \<Rightarrow> call" where
  "image_download mid k = DownloadMessageResource mid k ''image''"

definition cleared_histories ::
  "FeishuMessageContext \<Rightarrow> int \<Rightarrow> (string \<Rightarrow> HistoryEntry list option) option \<Rightarrow>
     (string \<Rightarrow> HistoryEntry list option) option" where
  "cleared_histories ctx limit h =
     (case h of
        None \<Rightarrow> None
      | Some historyMap \<Rightarrow>
          if ctx_chatType ctx = ChatGroup \<and> ctx_chatId ctx \<noteq> []
          then Some (clearHistoryEntriesIfEnabled historyMap (ctx_chatId ctx) limit)
          else Some historyMap)"

definition dispatch_completed :: "collaborators \<Rightarrow> call list \<Rightarrow> bool" where
  "dispatch_completed E cs \<longleftrightarrow>
     (\<exists>before payload result msg.
        cs = before @ [DispatchReplyFromConfig payload, MarkDispatchIdle, Log msg] \<and>
        dispatchReplyFromConfig E before payload = Inr result \<and>
        markDispatchIdle E (before @ [DispatchReplyFromConfig payload]) = Inr ())"

definition clears_after_dispatch ::
  "collaborators \<Rightarrow> FeishuMessageContext \<Rightarrow> int \<Rightarrow> unit io \<Rightarrow> bool" where
  "clears_after_dispatch E ctx limit f \<longleftrightarrow>
     (\<forall>w. (isl (fst (f w)) \<longrightarrow> chatHistories (snd (f w)) = chatHistories w) \<and>
          (\<not> isl (fst (f w)) \<longrightarrow>
             chatHistories (snd (f w)) = cleared_histories ctx limit (chatHistories w) \<and>
             dispatch_completed E (calls (snd (f w)))))"


text \<open>Message contents as the platform sends them, and what \<open>JSON.parse\<close> makes of them.\<close>

definition text_hello :: string where
  \<open>text_hello = ''{"text":"hello"}''\<close>

definition text_mention_hi :: string where
  \<open>text_mention_hi = ''{"text":"@_user_1 hi"}''\<close>

definition video_content :: string where
  \<open>video_content = ''{"file_key":"file_v1","image_key":"img_v1"}''\<close>

definition post_two_images :: string where
  \<open>post_two_images =
     ''{"content":[[{"tag":"img","image_key":"img_ok"},{"tag":"img","image_key":"img_bad"}]]}''\<close>

definition example_parse :: "string \<Rightarrow> json option" where
  "example_parse s =
     (if s = text_hello then Some (JObj [(''text'', JStr ''hello'')])
      else if s = text_mention_hi then Some (JObj [(''text'', JStr ''@_user_1 hi'')])
      else if s = video_content then
        Some (JObj [(''file_key'', JStr ''file_v1''), (''image_key'', JStr ''img_v1'')])
      else if s = post_two_images then
        Some (JObj [(''content'',
                JArr [JArr [JObj [(''tag'', JStr ''img''), (''image_key'', JStr ''img_ok'')],
                            JObj [(''tag'', JStr ''img''), (''image_key'', JStr ''img_bad'')]]])])
      else None)"

text \<open>
  The examples hold one pattern with a special character, \<open>@C++\s*\<close> from a user named
  \<open>C++\<close>, which is no regular expression (the second \<open>+\<close> has nothing to repeat):
  \<open>example_regexp\<close> answers with the SyntaxError of \<open>new RegExp\<close>.
\<close>

definition example_regexp :: "string \<Rightarrow> string \<Rightarrow> js_error + string" where
  "example_regexp source s =
     Inl (Thrown ''SyntaxError: Invalid regular expression'')"

text \<open>
  A runtime in which every collaborator succeeds, except that the download of the
  resource \<open>img_bad\<close> throws; and the same runtime with an agent dispatch that throws.
\<close>

definition example_env :: collaborators where
  "example_env =
     \<lparr>JSON_parse = example_parse,
      RegExp_remove = example_regexp,
      DEFAULT_GROUP_HISTORY_LIMIT = 50,
      clock = (\<lambda>cs. 1700000000000),
      resolveAgentRoute = (\<lambda>cs kind pid.
         Inr \<lparr>rt_sessionKey = ''session:'' @ pid, rt_accountId = ''default'', rt_agentId = ''main''\<rparr>),
      enqueueSystemEvent = (\<lambda>cs t s k. Inr ()),
      downloadMessageResourceFeishu = (\<lambda>cs mid k ty.
         if k = ''img_bad'' then Inl (Thrown ''Error: download failed'')
         else Inr \<lparr>dl_buffer = ''bytes-of-'' @ k, dl_contentType = Some ''image/png'',
                   dl_fileName = None\<rparr>),
      detectMime = (\<lambda>cs b. Inr (Some ''application/octet-stream'')),
      saveMediaBuffer = (\<lambda>cs b ct dir mx fn. Inr \<lparr>sv_path = ''/media/'' @ b, sv_contentType = ct\<rparr>),
      getMessageFeishu = (\<lambda>cs mid. Inr None),
      resolveEnvelopeFormatOptions = (\<lambda>cs. Inr ()),
      formatAgentEnvelope = (\<lambda>cs sender ts body. Inr (''[Feishu '' @ sender @ ''] '' @ body)),
      historyContext = (\<lambda>lines cur. concat (map (\<lambda>l. l @ [CHR 0x0A]) lines) @ cur),
      finalizeInboundContext = (\<lambda>cs payload. Inr payload),
      createFeishuReplyDispatcher = (\<lambda>cs agent cid mid. Inr ()),
      dispatchReplyFromConfig = (\<lambda>cs payload. Inr (True, 1)),
      markDispatchIdle = (\<lambda>cs. Inr ()),
      chunkTextWithMode = (\<lambda>t lim mode. [t]),
      convertMarkdownTables = (\<lambda>t mode. ''converted:'' @ t),
      sendMessageFeishu = (\<lambda>cs to t r. Inr ()),
      sendMarkdownCardFeishu = (\<lambda>cs to t r. Inr ())\<rparr>"

definition failing_agent_env :: collaborators where
  "failing_agent_env =
     example_env\<lparr>dispatchReplyFromConfig := (\<lambda>cs payload. Inl (Thrown ''Error: agent failed''))\<rparr>"

text \<open>
  A channel configuration with an allow-list for groups, and group events from the
  listed sender \<open>ou_alice\<close>: one that mentions nobody and one that mentions the bot
  \<open>ou_bot\<close>.
\<close>

definition example_feishu_cfg :: FeishuConfig where
  "example_feishu_cfg =
     \<lparr>cfg_groupPolicy = Some GroupAllowlist, cfg_groupAllowFrom = Some [EStr ''ou_alice''],
      cfg_groups = [], cfg_requireMention = None, cfg_dmPolicy = None, cfg_allowFrom = None,
      cfg_historyLimit = None, cfg_mediaMaxMb = None, cfg_renderMode = None\<rparr>"

definition example_cfg :: ClawdbotConfig where
  "example_cfg = \<lparr>channels_feishu = Some example_feishu_cfg, groupChat_historyLimit = None\<rparr>"

definition no_history_cfg :: ClawdbotConfig where
  "no_history_cfg =
     \<lparr>channels_feishu = Some (example_feishu_cfg\<lparr>cfg_historyLimit := Some 0\<rparr>),
      groupChat_historyLimit = None\<rparr>"

definition example_event :: FeishuMessageEvent where
  "example_event =
     \<lparr>ev_sender_id = \<lparr>open_id = Some ''ou_alice'', user_id = None, union_id = None\<rparr>,
      ev_sender_type = Some ''user'', ev_tenant_key = None, ev_message_id = ''om_2'',
      ev_root_id = None, ev_parent_id = None, ev_chat_id = ''oc_team'', ev_chat_type = ChatGroup,
      ev_message_type = ''text'', ev_content = text_hello, ev_mentions = None\<rparr>"


definition bot_mention :: mention where
  "bot_mention =
     \<lparr>m_key = ''@_user_1'', m_id = \<lparr>open_id = Some ''ou_bot'', user_id = None, union_id = None\<rparr>,
      m_name = ''Bot'', m_tenant_key = None\<rparr>"

definition mention_event :: FeishuMessageEvent where
  "mention_event =
     example_event\<lparr>ev_message_id := ''om_3'', ev_content := text_mention_hi,
                   ev_mentions := Some [bot_mention]\<rparr>"

text \<open>The same events with a mention of a user whose name is \<open>C++\<close>.\<close>

definition cpp_mention :: mention where
  "cpp_mention =
     \<lparr>m_key = ''@_user_2'', m_id = \<lparr>open_id = Some ''ou_carol'', user_id = None, union_id = None\<rparr>,
      m_name = ''C++'', m_tenant_key = None\<rparr>"

definition cpp_event :: FeishuMessageEvent where
  "cpp_event = example_event\<lparr>ev_mentions := Some [cpp_mention]\<rparr>"


text \<open>A reply that holds a two-row table.\<close>

definition table_reply :: string where
  "table_reply = ''|a|b|'' @ [CHR 0x0A] @ ''|-|-|''"

definition earlier_entry :: HistoryEntry where
  "earlier_entry =
     \<lparr>he_sender = ''ou_bob'', he_body = ''earlier'', he_timestamp = 1699999999000,
      he_messageId = ''om_1''\<rparr>"

definition example_world :: world where
  "example_world =
     \<lparr>calls = [], chatHistories = Some (Map.empty(''oc_team'' \<mapsto> [earlier_entry]))\<rparr>"

definition world_without_histories :: world where
  "world_without_histories = \<lparr>calls = [], chatHistories = None\<rparr>"

text \<open>
  The words of the specification for the allow-list: an entry names a text when the
  entry, rendered and trimmed, is that text up to the case of its letters; the empty
  text is named by no entry. \<open>decimal_value\<close> reads a string of digits as a number.
\<close>

definition entry_names :: "allow_entry \<Rightarrow> string \<Rightarrow> bool" where
  "entry_names e x \<longleftrightarrow> x \<noteq> [] \<and> toLowerCase (trim (String_of e)) = toLowerCase x"

definition decimal_value :: "string \<Rightarrow> nat" where
  "decimal_value s = foldl (\<lambda>a c. 10 * a + (of_char c - 48)) 0 s"

section \<open>Properties of the string primitives and the allow-list\<close>

lemma is_space_small: "is_space d \<Longrightarrow> (of_char d :: nat) < 33"
  by (auto simp: is_space_def)

lemma is_space_lower_char: "is_space (lower_char c) = is_space c"
proof (cases "65 \<le> (of_char c :: nat) \<and> (of_char c :: nat) \<le> 90")
  case False
  then show ?thesis by (auto simp: lower_char_def Let_def)
next
  case True
  define n where "n = (of_char c :: nat)"
  have lc: "lower_char c = char_of (n + 32)"
    using True by (simp add: lower_char_def Let_def n_def)
  have "(of_char (char_of (n + 32) :: char) :: nat) = (n + 32) mod 256"
    by simp
  also have "\<dots> = n + 32" using True by (simp add: n_def)
  finally have "(of_char (lower_char c) :: nat) = n + 32" using lc by simp
  then have "\<not> (of_char (lower_char c) :: nat) < 33" using True by (simp add: n_def)
  then have "\<not> is_space (lower_char c)" using is_space_small by blast
  moreover have "\<not> is_space c" using True is_space_small [of c] by auto
  ultimately show ?thesis by simp
qed

lemma empty_notin_normalize: "[] \<notin> set (normalize_allowFrom af)"
  by (simp add: normalize_allowFrom_def)

lemma allowlist_cascade:
  "resolveFeishuAllowlistMatch af sid sname =
     (let L = normalize_allowFrom af in
      if ''*'' \<in> set L then allowed_by ''*'' SrcWildcard
      else if toLowerCase sid \<in> set L then allowed_by (toLowerCase sid) SrcId
      else (case sname of
              Some n \<Rightarrow> if toLowerCase n \<in> set L then allowed_by (toLowerCase n) SrcName
                        else not_allowed
            | None \<Rightarrow> not_allowed))"
proof (cases "normalize_allowFrom af = []")
  case True
  then show ?thesis
    by (simp add: resolveFeishuAllowlistMatch_def split: option.splits)
next
  case False
  have "toLowerCase n \<in> set (normalize_allowFrom af) \<Longrightarrow> toLowerCase n \<noteq> []" for n
    using empty_notin_normalize [of af] by auto
  with False show ?thesis
    by (auto simp: resolveFeishuAllowlistMatch_def Let_def split: option.splits)
qed

lemma trim_lower: "toLowerCase (trim s) = trim (toLowerCase s)"
  by (simp add: trim_def toLowerCase_def dropWhile_map rev_map comp_def is_space_lower_char)

lemma dropWhile_pad: "list_all is_space l \<Longrightarrow> dropWhile is_space (l @ s) = dropWhile is_space s"
  by (induction l) auto

lemma dropWhile_all: "list_all is_space s \<Longrightarrow> dropWhile is_space s = []"
  by (induction s) auto

lemma trim_pad:
  assumes "list_all is_space l" "list_all is_space r"
  shows "trim (l @ s @ r) = trim s"
proof -
  have r: "list_all is_space (rev r)" using assms(2) by (simp add: list_all_iff)
  have "dropWhile is_space (rev (dropWhile is_space (l @ s @ r)))
        = dropWhile is_space (rev (dropWhile is_space s))"
  proof (cases "list_all is_space s")
    case True
    then have "list_all is_space (s @ r)" using assms(2) by simp
    then have "dropWhile is_space (s @ r) = []" by (rule dropWhile_all)
    moreover have "dropWhile is_space s = []" using True by (rule dropWhile_all)
    ultimately have "dropWhile is_space (s @ r) = dropWhile is_space s" by (simp only:)
    moreover have "dropWhile is_space (l @ s @ r) = dropWhile is_space (s @ r)"
      using assms(1) by (rule dropWhile_pad)
    ultimately show ?thesis by simp
  next
    case False
    then obtain x where "x \<in> set s" "\<not> is_space x" by (auto simp: list_all_iff)
    then have "dropWhile is_space (s @ r) = dropWhile is_space s @ r"
      by (rule dropWhile_append1)
    moreover have "dropWhile is_space (l @ s @ r) = dropWhile is_space (s @ r)"
      using assms(1) by (rule dropWhile_pad)
    moreover have "dropWhile is_space (rev r @ rev (dropWhile is_space s))
        = dropWhile is_space (rev (dropWhile is_space s))"
      using r by (rule dropWhile_pad)
    ultimately show ?thesis by simp
  qed
  then show ?thesis by (simp add: trim_def)
qed

lemma pad_variant_norm:
  assumes "pad_variant e e'"
  shows "toLowerCase (trim (String_of e')) = toLowerCase (trim (String_of e))"
proof -
  from assms obtain l r s where h: "list_all is_space l" "list_all is_space r"
    "String_of e' = l @ s @ r" "toLowerCase s = toLowerCase (String_of e)"
    by (auto simp: pad_variant_def)
  have "toLowerCase (trim (String_of e')) = toLowerCase (trim s)"
    using h(1,2,3) by (simp add: trim_pad)
  also have "\<dots> = trim (toLowerCase s)" by (rule trim_lower)
  also have "\<dots> = toLowerCase (trim (String_of e))" using h(4) by (simp add: trim_lower)
  finally show ?thesis .
qed

lemma pad_variants_normalize:
  "list_all2 pad_variant af af' \<Longrightarrow> normalize_allowFrom af' = normalize_allowFrom af"
proof (induction rule: list_all2_induct)
  case Nil
  then show ?case by simp
next
  case (Cons e es e' es')
  then show ?case
    using pad_variant_norm [OF Cons.hyps(1)] by (simp add: normalize_allowFrom_def)
qed

lemma blank_list_normalize:
  "\<forall>e\<in>set af. trim (String_of e) = [] \<Longrightarrow> normalize_allowFrom af = []"
  by (induction af) (simp_all add: normalize_allowFrom_def toLowerCase_def)

lemma in_normalize_iff:
  "x \<in> set (normalize_allowFrom af) \<longleftrightarrow>
     x \<noteq> [] \<and> (\<exists>e\<in>set af. toLowerCase (trim (String_of e)) = x)"
  by (auto simp: normalize_allowFrom_def)

lemma lower_char_code:
  "(of_char (lower_char c) :: nat) =
     (if 65 \<le> (of_char c :: nat) \<and> (of_char c :: nat) \<le> 90 then of_char c + 32 else of_char c)"
proof (cases "65 \<le> (of_char c :: nat) \<and> (of_char c :: nat) \<le> 90")
  case False
  then show ?thesis by (auto simp: lower_char_def Let_def)
next
  case True
  define n where "n = (of_char c :: nat)"
  have "(of_char (char_of (n + 32) :: char) :: nat) = (n + 32) mod 256" by simp
  also have "\<dots> = n + 32" using True by (simp add: n_def)
  finally show ?thesis using True by (simp add: lower_char_def Let_def n_def)
qed

lemma lower_char_fixed:
  "(of_char c :: nat) < 65 \<Longrightarrow> lower_char c = c"
  by (simp add: lower_char_def Let_def)

lemma lower_char_below:
  assumes "(of_char (lower_char c) :: nat) < 65"
  shows "lower_char c = c"
proof (cases "65 \<le> (of_char c :: nat) \<and> (of_char c :: nat) \<le> 90")
  case True
  then have "(of_char (lower_char c) :: nat) = of_char c + 32" by (simp add: lower_char_code)
  then show ?thesis using assms True by simp
next
  case False
  then show ?thesis by (auto simp: lower_char_def Let_def)
qed

lemma lower_is_star: "toLowerCase s = ''*'' \<longleftrightarrow> s = ''*''"
proof
  assume h: "toLowerCase s = ''*''"
  then obtain c where s: "s = [c]" and c: "lower_char c = CHR ''*''"
    by (auto simp: toLowerCase_def)
  have "(of_char (lower_char c) :: nat) < 65" unfolding c by simp
  then have "lower_char c = c" by (rule lower_char_below)
  then show "s = ''*''" using s c by simp
next
  assume "s = ''*''"
  then show "toLowerCase s = ''*''" by (simp add: toLowerCase_def lower_char_fixed)
qed

lemma lower_empty: "toLowerCase s = [] \<longleftrightarrow> s = []"
  by (simp add: toLowerCase_def)

lemma names_iff_normalized:
  "(\<exists>e\<in>set af. entry_names e x) \<longleftrightarrow> toLowerCase x \<in> set (normalize_allowFrom af)"
  by (auto simp: entry_names_def in_normalize_iff lower_empty)

lemma star_iff_normalized:
  "(\<exists>e\<in>set af. trim (String_of e) = ''*'') \<longleftrightarrow> ''*'' \<in> set (normalize_allowFrom af)"
  by (simp add: in_normalize_iff lower_is_star)

lemma dropWhile_none: "\<forall>c\<in>set s. \<not> P c \<Longrightarrow> dropWhile P s = s"
  by (cases s) auto

lemma trim_no_space: "\<forall>c\<in>set s. \<not> is_space c \<Longrightarrow> trim s = s"
  by (simp add: trim_def dropWhile_none)

lemma lower_no_upper: "\<forall>c\<in>set s. (of_char c :: nat) < 65 \<Longrightarrow> toLowerCase s = s"
  by (simp add: toLowerCase_def lower_char_fixed map_idI)

lemma digit_code: "k < 10 \<Longrightarrow> (of_char (char_of (48 + k) :: char) :: nat) = 48 + k"
  by simp

lemma dec_nat_chars:
  "\<forall>c\<in>set (dec_nat n). 48 \<le> (of_char c :: nat) \<and> (of_char c :: nat) \<le> 57"
proof (induction n rule: dec_nat.induct)
  case (1 n)
  show ?case
  proof (cases "n < 10")
    case True
    then show ?thesis using digit_code [of n] by (simp add: dec_nat.simps [of n])
  next
    case False
    have "n mod 10 < 10" by simp
    then have "(of_char (char_of (48 + n mod 10) :: char) :: nat) = 48 + n mod 10"
      by (rule digit_code)
    then show ?thesis using False 1 by (simp add: dec_nat.simps [of n])
  qed
qed

lemma dec_nat_nonempty: "dec_nat n \<noteq> []"
  by (simp add: dec_nat.simps [of n])

lemma decimal_value_snoc:
  "decimal_value (s @ [c]) = 10 * decimal_value s + (of_char c - 48)"
  by (simp add: decimal_value_def)

lemma decimal_value_dec_nat: "decimal_value (dec_nat n) = n"
proof (induction n rule: dec_nat.induct)
  case (1 n)
  show ?case
  proof (cases "n < 10")
    case True
    then show ?thesis using digit_code [of n] by (simp add: dec_nat.simps [of n] decimal_value_def)
  next
    case False
    have "n mod 10 < 10" by simp
    then have d: "(of_char (char_of (48 + n mod 10) :: char) :: nat) = 48 + n mod 10"
      by (rule digit_code)
    have "decimal_value (dec_nat n) =
        10 * decimal_value (dec_nat (n div 10)) + (of_char (char_of (48 + n mod 10) :: char) - 48)"
      using False by (simp add: dec_nat.simps [of n] decimal_value_snoc)
    also have "\<dots> = 10 * (n div 10) + n mod 10" using False 1 by (simp only: d) simp
    finally show ?thesis by simp
  qed
qed

lemma dec_int_chars:
  "\<forall>c\<in>set (dec_int n). 45 \<le> (of_char c :: nat) \<and> (of_char c :: nat) \<le> 57"
  using dec_nat_chars [of "nat n"] dec_nat_chars [of "nat (- n)"]
  by (auto simp: dec_int_def)

lemma dec_int_normal:
  "trim (dec_int n) = dec_int n" "toLowerCase (dec_int n) = dec_int n"
  "dec_int n \<noteq> []" "dec_int n \<noteq> ''*''"
proof -
  have c: "\<forall>c\<in>set (dec_int n). 45 \<le> (of_char c :: nat) \<and> (of_char c :: nat) \<le> 57"
    by (rule dec_int_chars)
  have "\<forall>c\<in>set (dec_int n). \<not> is_space c" using c is_space_small by fastforce
  then show "trim (dec_int n) = dec_int n" by (rule trim_no_space)
  have "\<forall>c\<in>set (dec_int n). (of_char c :: nat) < 65" using c by fastforce
  then show "toLowerCase (dec_int n) = dec_int n" by (rule lower_no_upper)
  show "dec_int n \<noteq> []" by (simp add: dec_int_def dec_nat_nonempty)
  show "dec_int n \<noteq> ''*''"
  proof
    assume "dec_int n = ''*''"
    then have "CHR ''*'' \<in> set (dec_int n)" by simp
    then show False using c by fastforce
  qed
qed

lemma number_entry_normalized:
  "normalize_allowFrom [ENum (SafeInteger n)] = [dec_int n]"
  by (simp add: normalize_allowFrom_def dec_int_normal)


subsection \<open>C4: precedence of the allow-list match\<close>

text \<open>
  C4. For every allow-list, sender id and optional sender name,
  \<open>resolveFeishuAllowlistMatch\<close> applies the precedence wildcard, then id, then name: when
  some entry, rendered and trimmed, is \<open>*\<close>, the result is allowed with source
  \<open>wildcard\<close>, whatever else the list holds; otherwise, when some entry names the sender
  id up to case and surrounding white space, the match is reported as \<open>id\<close>; otherwise,
  when some entry so names the sender name, as \<open>name\<close>; otherwise the sender is not
  allowed. The reported key is the wildcard, or the lowercased id or name. For the list
  \<open>["*", "alice"]\<close> every sender matches through the wildcard.
\<close>

theorem allowlist_match_precedence:
  "resolveFeishuAllowlistMatch af sid sname =
     (if \<exists>e\<in>set af. trim (String_of e) = ''*'' then allowed_by ''*'' SrcWildcard
      else if \<exists>e\<in>set af. entry_names e sid then allowed_by (toLowerCase sid) SrcId
      else (case sname of
              Some n \<Rightarrow> if \<exists>e\<in>set af. entry_names e n then allowed_by (toLowerCase n) SrcName
                        else not_allowed
            | None \<Rightarrow> not_allowed))
   \<and> resolveFeishuAllowlistMatch [EStr ''*'', EStr ''alice''] sid' sname' =
       allowed_by ''*'' SrcWildcard"
proof
  show "resolveFeishuAllowlistMatch af sid sname =
     (if \<exists>e\<in>set af. trim (String_of e) = ''*'' then allowed_by ''*'' SrcWildcard
      else if \<exists>e\<in>set af. entry_names e sid then allowed_by (toLowerCase sid) SrcId
      else (case sname of
              Some n \<Rightarrow> if \<exists>e\<in>set af. entry_names e n then allowed_by (toLowerCase n) SrcName
                        else not_allowed
            | None \<Rightarrow> not_allowed))"
    unfolding names_iff_normalized star_iff_normalized
    by (simp add: allowlist_cascade Let_def)
  have "''*'' \<in> set (normalize_allowFrom [EStr ''*'', EStr ''alice''])"
    by (simp add: normalize_allowFrom_def trim_def toLowerCase_def lower_char_def is_space_def)
  then show "resolveFeishuAllowlistMatch [EStr ''*'', EStr ''alice''] sid' sname' =
       allowed_by ''*'' SrcWildcard"
    by (simp add: allowlist_cascade)
qed

theorem allowlist_match_precedence_witness:
  "resolveFeishuAllowlistMatch [EStr ''alice'', EStr (CHR 0x09 # '' *  '')] ''ou_1'' (Some ''Alice'') =
     allowed_by ''*'' SrcWildcard \<and>
   resolveFeishuAllowlistMatch [EStr ''Alice'', EStr ''  OU_1 ''] ''Ou_1'' (Some ''ALICE'') =
     allowed_by ''ou_1'' SrcId \<and>
   resolveFeishuAllowlistMatch [EStr '' Alice ''] ''ou_1'' (Some ''ALICE'') =
     allowed_by ''alice'' SrcName \<and>
   resolveFeishuAllowlistMatch [EStr ''bob'', EStr ''ou_11''] ''ou_1'' (Some ''ALICE'') = not_allowed \<and>
   resolveFeishuAllowlistMatch [EStr '' Alice ''] ''ou_1'' None = not_allowed"
proof -
  have c1: "\<exists>e\<in>set [EStr ''alice'', EStr (CHR 0x09 # '' *  '')]. trim (String_of e) = ''*''"
    by code_simp
  have c2: "\<not> (\<exists>e\<in>set [EStr ''Alice'', EStr ''  OU_1 '']. trim (String_of e) = ''*'')"
    "\<exists>e\<in>set [EStr ''Alice'', EStr ''  OU_1 '']. entry_names e ''Ou_1''"
    "toLowerCase ''Ou_1'' = ''ou_1''"
    by code_simp+
  have c3: "\<not> (\<exists>e\<in>set [EStr '' Alice '']. trim (String_of e) = ''*'')"
    "\<not> (\<exists>e\<in>set [EStr '' Alice '']. entry_names e ''ou_1'')"
    "\<exists>e\<in>set [EStr '' Alice '']. entry_names e ''ALICE''"
    "toLowerCase ''ALICE'' = ''alice''"
    by code_simp+
  have c4: "\<not> (\<exists>e\<in>set [EStr ''bob'', EStr ''ou_11'']. trim (String_of e) = ''*'')"
    "\<not> (\<exists>e\<in>set [EStr ''bob'', EStr ''ou_11'']. entry_names e ''ou_1'')"
    "\<not> (\<exists>e\<in>set [EStr ''bob'', EStr ''ou_11'']. entry_names e ''ALICE'')"
    by code_simp+
  have "resolveFeishuAllowlistMatch [EStr ''alice'', EStr (CHR 0x09 # '' *  '')] ''ou_1'' (Some ''Alice'') =
     allowed_by ''*'' SrcWildcard"
    using allowlist_match_precedence
      [of "[EStr ''alice'', EStr (CHR 0x09 # '' *  '')]" "''ou_1''" "Some ''Alice''"] c1
    by (simp only: if_True)
  moreover have "resolveFeishuAllowlistMatch [EStr ''Alice'', EStr ''  OU_1 ''] ''Ou_1'' (Some ''ALICE'') =
     allowed_by ''ou_1'' SrcId"
    using allowlist_match_precedence [of "[EStr ''Alice'', EStr ''  OU_1 '']" "''Ou_1''" "Some ''ALICE''"] c2
    by (simp only: if_True if_False)
  moreover have "resolveFeishuAllowlistMatch [EStr '' Alice ''] ''ou_1'' (Some ''ALICE'') =
     allowed_by ''alice'' SrcName"
    using allowlist_match_precedence [of "[EStr '' Alice '']" "''ou_1''" "Some ''ALICE''"] c3
    by (simp only: if_True if_False option.case)
  moreover have "resolveFeishuAllowlistMatch [EStr ''bob'', EStr ''ou_11''] ''ou_1'' (Some ''ALICE'') =
     not_allowed"
    using allowlist_match_precedence [of "[EStr ''bob'', EStr ''ou_11'']" "''ou_1''" "Some ''ALICE''"] c4
    by (simp only: if_True if_False option.case)
  moreover have "resolveFeishuAllowlistMatch [EStr '' Alice ''] ''ou_1'' None = not_allowed"
    using allowlist_match_precedence [of "[EStr '' Alice '']" "''ou_1''" None] c3(1,2)
    by (simp only: if_True if_False option.case)
  ultimately show ?thesis by (simp only: simp_thms)
qed

lemma normalize_decides:
  "normalize_allowFrom af' = normalize_allowFrom af \<Longrightarrow>
   resolveFeishuAllowlistMatch af' sid sname = resolveFeishuAllowlistMatch af sid sname"
  by (simp add: allowlist_cascade)

subsection \<open>C10: an empty allow-list rejects; entries are normalised\<close>

text \<open>
  C10. For every sender id and sender name, \<open>resolveFeishuAllowlistMatch\<close> with an
  allow-list that is empty, or whose entries all trim to the empty string, returns
  not-allowed, so under the \<open>allowlist\<close> policy such a list rejects every sender, in
  groups and in direct messages. Entries are compared after \<open>String\<close>, \<open>trim\<close> and
  \<open>toLowerCase\<close>: a list whose entries differ from another's only in case and
  surrounding white space decides alike. A number entry is compared as the text
  \<open>String\<close> renders it as: a safe integer admits exactly the sender whose id or name is
  its decimal numeral, the digits that read back as its magnitude, behind a minus sign
  when it is negative.
\<close>

theorem empty_allowlist_rejects_all:
  "((\<forall>e\<in>set af. trim (String_of e) = []) \<longrightarrow>
      resolveFeishuAllowlistMatch af sid sname = not_allowed \<and>
      \<not> isFeishuGroupAllowed GroupAllowlist af sid sname)
   \<and> (list_all2 pad_variant af af' \<longrightarrow>
        resolveFeishuAllowlistMatch af' sid sname = resolveFeishuAllowlistMatch af sid sname)
   \<and> (safe_integer n \<longrightarrow>
        (allowed (resolveFeishuAllowlistMatch [ENum (SafeInteger n)] sid sname) \<longleftrightarrow>
           toLowerCase sid = String_of (ENum (SafeInteger n)) \<or>
           (\<exists>x. sname = Some x \<and> toLowerCase x = String_of (ENum (SafeInteger n)))) \<and>
        (0 \<le> n \<longrightarrow> decimal_value (String_of (ENum (SafeInteger n))) = nat n) \<and>
        (n < 0 \<longrightarrow>
           String_of (ENum (SafeInteger n)) = CHR ''-'' # String_of (ENum (SafeInteger (- n)))))
   \<and> (Option.bind feishuCfg cfg_dmPolicy = Some DmAllowlist \<and>
        (\<forall>e\<in>set (case Option.bind feishuCfg cfg_allowFrom of Some l \<Rightarrow> l | None \<Rightarrow> []).
            trim (String_of e) = []) \<longrightarrow>
        \<not> dm_allowed feishuCfg ctx)"
proof (intro conjI impI)
  assume blank: "\<forall>e\<in>set af. trim (String_of e) = []"
  then have "normalize_allowFrom af = []" by (rule blank_list_normalize)
  then show r: "resolveFeishuAllowlistMatch af sid sname = not_allowed"
    by (simp add: resolveFeishuAllowlistMatch_def)
  then show "\<not> isFeishuGroupAllowed GroupAllowlist af sid sname"
    by (simp add: isFeishuGroupAllowed_def not_allowed_def)
next
  assume "list_all2 pad_variant af af'"
  then have "normalize_allowFrom af' = normalize_allowFrom af" by (rule pad_variants_normalize)
  then show "resolveFeishuAllowlistMatch af' sid sname = resolveFeishuAllowlistMatch af sid sname"
    by (rule normalize_decides)
next
  have s: "String_of (ENum (SafeInteger n)) = dec_int n" by simp
  show "allowed (resolveFeishuAllowlistMatch [ENum (SafeInteger n)] sid sname) \<longleftrightarrow>
           toLowerCase sid = String_of (ENum (SafeInteger n)) \<or>
           (\<exists>x. sname = Some x \<and> toLowerCase x = String_of (ENum (SafeInteger n)))"
    unfolding s
    using dec_int_normal(4) [of n]
    by (cases sname)
       (auto simp: allowlist_cascade number_entry_normalized Let_def allowed_by_def not_allowed_def)
next
  assume "0 \<le> n"
  then show "decimal_value (String_of (ENum (SafeInteger n))) = nat n"
    by (simp add: dec_int_def decimal_value_dec_nat)
next
  assume "n < 0"
  then show "String_of (ENum (SafeInteger n)) = CHR ''-'' # String_of (ENum (SafeInteger (- n)))"
    by (simp add: dec_int_def)
next
  assume h: "Option.bind feishuCfg cfg_dmPolicy = Some DmAllowlist \<and>
        (\<forall>e\<in>set (case Option.bind feishuCfg cfg_allowFrom of Some l \<Rightarrow> l | None \<Rightarrow> []).
            trim (String_of e) = [])"
  then have "normalize_allowFrom
      (case Option.bind feishuCfg cfg_allowFrom of Some l \<Rightarrow> l | None \<Rightarrow> []) = []"
    using blank_list_normalize by blast
  then show "\<not> dm_allowed feishuCfg ctx"
    using h by (simp add: dm_allowed_def Let_def resolveFeishuAllowlistMatch_def not_allowed_def)
qed

theorem empty_allowlist_rejects_all_witness:
  "resolveFeishuAllowlistMatch [EStr ''  '', EStr []] ''ou_alice'' (Some ''Alice'') = not_allowed \<and>
   \<not> isFeishuGroupAllowed GroupAllowlist [EStr ''  '', EStr []] ''ou_alice'' (Some ''Alice'') \<and>
   resolveFeishuAllowlistMatch [EStr '' ALICE  ''] ''ou_alice'' (Some ''Alice'') =
     resolveFeishuAllowlistMatch [EStr ''alice''] ''ou_alice'' (Some ''Alice'') \<and>
   resolveFeishuAllowlistMatch [EStr ''alice''] ''ou_alice'' (Some ''Alice'') =
     allowed_by ''alice'' SrcName \<and>
   String_of (ENum (SafeInteger 123)) = ''123'' \<and>
   String_of (ENum (SafeInteger (- 40))) = ''-40'' \<and>
   allowed (resolveFeishuAllowlistMatch [ENum (SafeInteger 123)] ''123'' None) \<and>
   \<not> allowed (resolveFeishuAllowlistMatch [ENum (SafeInteger 123)] ''124'' (Some ''12'')) \<and>
   decimal_value ''123'' = 123 \<and>
   resolveFeishuAllowlistMatch [ENum (OtherNumber ''1e+21'')] ''1E+21'' None =
     allowed_by ''1e+21'' SrcId \<and>
   \<not> dm_allowed (Some (example_feishu_cfg\<lparr>cfg_dmPolicy := Some DmAllowlist\<rparr>))
       (projr (parseFeishuMessageEvent example_parse example_regexp example_event None))"
proof -
  have blank: "\<forall>e\<in>set [EStr ''  '', EStr []]. trim (String_of e) = []"
    by (simp add: trim_def is_space_def)
  have "list_all is_space '' '' \<and> list_all is_space ''  '' \<and>
      String_of (EStr '' ALICE  '') = '' '' @ ''ALICE'' @ ''  '' \<and>
      toLowerCase ''ALICE'' = toLowerCase (String_of (EStr ''alice''))"
    by code_simp
  then have "pad_variant (EStr ''alice'') (EStr '' ALICE  '')"
    unfolding pad_variant_def by blast
  then have pad: "list_all2 pad_variant [EStr ''alice''] [EStr '' ALICE  '']" by simp
  have dm: "Option.bind (Some (example_feishu_cfg\<lparr>cfg_dmPolicy := Some DmAllowlist\<rparr>)) cfg_dmPolicy
        = Some DmAllowlist \<and>
      (\<forall>e\<in>set (case Option.bind (Some (example_feishu_cfg\<lparr>cfg_dmPolicy := Some DmAllowlist\<rparr>))
                       cfg_allowFrom of Some l \<Rightarrow> l | None \<Rightarrow> []). trim (String_of e) = [])"
    by (simp add: example_feishu_cfg_def)
  have name: "resolveFeishuAllowlistMatch [EStr ''alice''] ''ou_alice'' (Some ''Alice'') =
     allowed_by ''alice'' SrcName"
    by code_simp
  have safe: "safe_integer 123" "safe_integer (- 40)"
    by (simp_all add: safe_integer_def)
  have num: "String_of (ENum (SafeInteger 123)) = ''123''"
    "String_of (ENum (SafeInteger (- 40))) = ''-40''"
    "String_of (ENum (SafeInteger 40)) = ''40''"
    "toLowerCase ''123'' = ''123''" "toLowerCase ''124'' = ''124''" "toLowerCase ''12'' = ''12''"
    "dec_int 123 = ''123''" "dec_int (- 40) = ''-40''" "dec_int 40 = ''40''"
    by code_simp+
  have other: "resolveFeishuAllowlistMatch [ENum (OtherNumber ''1e+21'')] ''1E+21'' None =
     allowed_by ''1e+21'' SrcId"
    by code_simp
  have a: "resolveFeishuAllowlistMatch [EStr ''  '', EStr []] ''ou_alice'' (Some ''Alice'') = not_allowed \<and>
      \<not> isFeishuGroupAllowed GroupAllowlist [EStr ''  '', EStr []] ''ou_alice'' (Some ''Alice'') \<and>
      \<not> dm_allowed (Some (example_feishu_cfg\<lparr>cfg_dmPolicy := Some DmAllowlist\<rparr>))
       (projr (parseFeishuMessageEvent example_parse example_regexp example_event None))"
    using empty_allowlist_rejects_all [of "[EStr ''  '', EStr []]" "''ou_alice''" "Some ''Alice''"
        "[]" 0 "Some (example_feishu_cfg\<lparr>cfg_dmPolicy := Some DmAllowlist\<rparr>)"
        "projr (parseFeishuMessageEvent example_parse example_regexp example_event None)"]
      blank dm
    by blast
  have b: "resolveFeishuAllowlistMatch [EStr '' ALICE  ''] ''ou_alice'' (Some ''Alice'') =
     resolveFeishuAllowlistMatch [EStr ''alice''] ''ou_alice'' (Some ''Alice'')"
    using empty_allowlist_rejects_all [of "[EStr ''alice'']" "''ou_alice''" "Some ''Alice''"
        "[EStr '' ALICE  '']" 0 None undefined]
      pad
    by blast
  have c: "allowed (resolveFeishuAllowlistMatch [ENum (SafeInteger 123)] ''123'' None)"
    "decimal_value ''123'' = 123"
    using empty_allowlist_rejects_all [of "[]" "''123''" None "[]" 123 None undefined] safe(1)
    by (simp_all add: num)
  have d: "\<not> allowed (resolveFeishuAllowlistMatch [ENum (SafeInteger 123)] ''124'' (Some ''12''))"
    using empty_allowlist_rejects_all [of "[]" "''124''" "Some ''12''" "[]" 123 None undefined] safe(1)
    by (simp add: num)
  have e: "String_of (ENum (SafeInteger (- 40))) = ''-40''"
    using empty_allowlist_rejects_all [of "[]" "[]" None "[]" "- 40" None undefined] safe(2)
    by (simp add: num)
  show ?thesis using a b c d e name num(1) other by (simp only: simp_thms)
qed

section \<open>Properties of mention handling\<close>

subsection \<open>C5: bot-mention detection\<close>

text \<open>
  C5, as amended. The mentioned flag is computed from the mention list and the bot
  identifier: when the identifier is unknown, which the code takes to be \<open>undefined\<close>
  or the empty string, the flag is true iff the mention list is non-empty; otherwise
  it is true iff some mention entry's \<open>open_id\<close> equals the identifier.
\<close>

theorem bot_mention_detection:
  "checkBotMentioned event botOpenId \<longleftrightarrow>
     (let ms = (case ev_mentions event of Some l \<Rightarrow> l | None \<Rightarrow> []) in
      if botOpenId = None \<or> botOpenId = Some [] then ms \<noteq> []
      else \<exists>m\<in>set ms. open_id (m_id m) = botOpenId)"
  by (cases botOpenId)
     (auto simp: checkBotMentioned_def Let_def falsy_str_def list_ex_iff split: option.splits)

theorem bot_mention_detection_witness:
  "checkBotMentioned mention_event (Some ''ou_bot'') \<and>
   \<not> checkBotMentioned mention_event (Some ''ou_other'') \<and>
   checkBotMentioned mention_event None \<and>
   \<not> checkBotMentioned example_event None"
  using bot_mention_detection [of mention_event "Some ''ou_bot''"]
    bot_mention_detection [of mention_event "Some ''ou_other''"]
    bot_mention_detection [of mention_event None]
    bot_mention_detection [of example_event None]
  by (simp add: mention_event_def example_event_def bot_mention_def)

text \<open>
  The claim as stated fails for an identifier that is defined and empty: the guard
  \<open>!botOpenId\<close> counts it as unknown, so one mention of another identifier sets the
  flag.
\<close>

theorem empty_bot_id_counts_any_mention:
  "checkBotMentioned mention_event (Some []) \<and>
   open_id (m_id bot_mention) \<noteq> Some [] \<and>
   ev_mentions mention_event = Some [bot_mention]"
  by (simp add: checkBotMentioned_def mention_event_def example_event_def bot_mention_def falsy_str_def)

lemma remove_matches_none:
  "(\<And>a b. s = a @ b \<Longrightarrow> b \<noteq> [] \<Longrightarrow> m b = None \<or> m b = Some b) \<Longrightarrow> remove_matches m s = s"
proof (induction s)
  case Nil
  then show ?case by simp
next
  case (Cons c cs)
  have "m (c # cs) = None \<or> m (c # cs) = Some (c # cs)" using Cons.prems [of "[]" "c # cs"] by simp
  moreover have "remove_matches m cs = cs"
  proof (rule Cons.IH)
    fix a b assume "cs = a @ b" "b \<noteq> []"
    then show "m b = None \<or> m b = Some b" using Cons.prems [of "c # a" b] by simp
  qed
  ultimately show ?case by auto
qed

lemma not_occurs_suffix: "\<not> occurs_in p (a @ b) \<Longrightarrow> strip_prefix p b = None"
proof (induction a)
  case Nil
  then show ?case by (cases b; cases p) auto
next
  case (Cons x a)
  then show ?case by simp
qed

lemma remove_literal_absent:
  assumes "p = [] \<or> \<not> occurs_in p s"
  shows "remove_matches (match_literal p) s = s"
proof (rule remove_matches_none)
  fix a b assume "s = a @ b" "b \<noteq> []"
  then show "match_literal p b = None \<or> match_literal p b = Some b"
    using assms not_occurs_suffix [of p a b] by (auto simp: match_literal_def)
qed

lemma remove_at_name_absent:
  assumes "\<not> occurs_in (CHR ''@'' # name) s"
  shows "remove_matches (match_at_name name) s = s"
proof (rule remove_matches_none)
  fix a b assume "s = a @ b" "b \<noteq> []"
  then show "match_at_name name b = None \<or> match_at_name name b = Some b"
    using assms not_occurs_suffix [of "CHR ''@'' # name" a b] by (simp add: match_at_name_def)
qed

lemma dropWhile_fix: "xs = [] \<or> \<not> P (hd xs) \<Longrightarrow> dropWhile P xs = xs"
  by (cases xs) auto

lemma trim_idem: "trim (trim s) = trim s"
proof -
  define u where "u = dropWhile is_space s"
  define v where "v = dropWhile is_space (rev u)"
  have t: "trim s = rev v" by (simp add: trim_def u_def v_def)
  have "rev u = takeWhile is_space (rev u) @ v" by (simp add: v_def)
  then have "u = rev v @ rev (takeWhile is_space (rev u))"
    by (metis rev_append rev_rev_ident)
  then obtain w where u: "u = rev v @ w" by blast
  have "rev v = [] \<or> \<not> is_space (hd (rev v))"
  proof (cases "rev v = []")
    case False
    then have "u \<noteq> []" "hd (rev v) = hd u" using u by (auto simp: hd_append)
    then show ?thesis using hd_dropWhile [of is_space s] by (simp add: u_def)
  qed simp
  then have "dropWhile is_space (rev v) = rev v" by (rule dropWhile_fix)
  moreover have "dropWhile is_space v = v" by (simp add: v_def)
  ultimately have "rev (dropWhile is_space (rev (dropWhile is_space (rev v)))) = rev v"
    by simp
  then show ?thesis unfolding t by (simp only: trim_def)
qed

lemma strip_loop_step:
  assumes "regex_literal (m_name m)" "regex_literal (m_key m)"
  shows "strip_loop R t (m # ms) =
     strip_loop R
       (trim (remove_matches (match_literal (m_key m))
          (trim (remove_matches (match_at_name (m_name m)) t))))
       ms"
  using assms by (simp add: remove_name_def remove_key_def)

lemma strip_loop_returns:
  "\<forall>m\<in>set ms. regex_literal (m_name m) \<and> regex_literal (m_key m) \<Longrightarrow>
   \<exists>r. strip_loop R t ms = Inr r"
proof (induction ms arbitrary: t)
  case Nil
  then show ?case by simp
next
  case (Cons m ms)
  then have "regex_literal (m_name m)" "regex_literal (m_key m)" by simp_all
  then show ?case using Cons by (simp only: strip_loop_step) simp
qed

lemma strip_loop_trimmed:
  "\<forall>m\<in>set ms. regex_literal (m_name m) \<and> regex_literal (m_key m) \<Longrightarrow>
   ms \<noteq> [] \<or> trim t = t \<Longrightarrow> strip_loop R t ms = Inr r \<Longrightarrow> trim r = r"
proof (induction ms arbitrary: t)
  case Nil
  then show ?case by simp
next
  case (Cons m ms)
  then have l: "regex_literal (m_name m)" "regex_literal (m_key m)" by simp_all
  define t' where "t' = trim (remove_matches (match_literal (m_key m))
          (trim (remove_matches (match_at_name (m_name m)) t)))"
  have "strip_loop R t' ms = Inr r"
    using Cons.prems(3) l by (simp only: strip_loop_step t'_def)
  moreover have "trim t' = t'" by (simp add: t'_def trim_idem)
  moreover have "\<forall>m\<in>set ms. regex_literal (m_name m) \<and> regex_literal (m_key m)"
    using Cons.prems(1) by simp
  ultimately show ?case using Cons.IH [of t'] by blast
qed

lemma strip_loop_fix:
  assumes "trim r = r"
    and "\<forall>m\<in>set ms. regex_literal (m_name m) \<and> regex_literal (m_key m)"
    and "\<forall>m\<in>set ms. \<not> occurs_in (CHR ''@'' # m_name m) r \<and> (m_key m = [] \<or> \<not> occurs_in (m_key m) r)"
  shows "strip_loop R r ms = Inr r"
  using assms(2,3)
proof (induction ms)
  case Nil
  then show ?case by simp
next
  case (Cons m ms)
  then have l: "regex_literal (m_name m)" "regex_literal (m_key m)" by simp_all
  from Cons have a: "remove_matches (match_at_name (m_name m)) r = r"
    and b: "remove_matches (match_literal (m_key m)) r = r"
    by (simp_all add: remove_at_name_absent remove_literal_absent)
  have "strip_loop R r (m # ms) = strip_loop R r ms"
    using l by (simp only: strip_loop_step a b assms(1))
  then show ?case using Cons by simp
qed

subsection \<open>C6: stripping mentions twice\<close>

text \<open>
  C6, as amended. For mentions whose names and keys contain no character that is
  special in a regular expression, \<open>stripBotMention\<close> returns; and when the text
  stripped once contains no mention's display form \<open>@name\<close> and no mention's key any
  more, stripping it again with the same mention list leaves it as it is.
\<close>

theorem strip_twice_when_clean:
  fixes mentions :: "mention list option" and R fragment
  defines "ms \<equiv> (case mentions of Some l \<Rightarrow> l | None \<Rightarrow> [])"
  defines "once \<equiv> projr (stripBotMention R fragment mentions)"
  assumes "\<forall>m\<in>set ms. regex_literal (m_name m) \<and> regex_literal (m_key m)"
    and "\<forall>m\<in>set ms. \<not> occurs_in (CHR ''@'' # m_name m) once \<and>
          (m_key m = [] \<or> \<not> occurs_in (m_key m) once)"
  shows "stripBotMention R fragment mentions = Inr once \<and>
    stripBotMention R once mentions = Inr once"
proof (cases "ms = []")
  case True
  then show ?thesis by (simp add: stripBotMention_def ms_def once_def split: option.splits)
next
  case False
  then have some: "mentions = Some ms" by (simp add: ms_def split: option.splits)
  have r: "stripBotMention R t mentions = strip_loop R t ms" for t
    using False some by (simp add: stripBotMention_def)
  obtain v where v: "strip_loop R fragment ms = Inr v"
    using strip_loop_returns [OF assms(3)] by blast
  then have o: "once = v" by (simp add: once_def r)
  have "trim once = once"
    using strip_loop_trimmed [OF assms(3) _ v] False o by simp
  then have "strip_loop R once ms = Inr once"
    using assms(3,4) by (rule strip_loop_fix)
  then show ?thesis using v o by (simp add: r)
qed

theorem strip_twice_when_clean_witness:
  "stripBotMention example_regexp ''hi @Bot   there @_user_1 x  '' (Some [bot_mention]) =
     Inr ''hi there  x'' \<and>
   stripBotMention example_regexp ''hi there  x'' (Some [bot_mention]) = Inr ''hi there  x''"
proof -
  have r: "projr (stripBotMention example_regexp ''hi @Bot   there @_user_1 x  ''
                    (Some [bot_mention])) = ''hi there  x''"
    by code_simp
  have lit: "\<forall>m\<in>set [bot_mention]. regex_literal (m_name m) \<and> regex_literal (m_key m)"
    by code_simp
  have clean: "\<forall>m\<in>set [bot_mention].
      \<not> occurs_in (CHR ''@'' # m_name m) ''hi there  x'' \<and>
      (m_key m = [] \<or> \<not> occurs_in (m_key m) ''hi there  x'')"
    by code_simp
  show ?thesis
    using strip_twice_when_clean
      [where mentions = "Some [bot_mention]" and R = example_regexp
          and fragment = "''hi @Bot   there @_user_1 x  ''"]
      lit clean
    unfolding r by simp
qed

text \<open>
  The claim as stated fails: the first pass deletes the key inside \<open>@_user_@_user_11\<close>
  and leaves \<open>@_user_1\<close>, the key itself, which the second pass deletes.
\<close>

theorem strip_twice_differs:
  "stripBotMention example_regexp ''@_user_@_user_11'' (Some [bot_mention]) = Inr ''@_user_1'' \<and>
   stripBotMention example_regexp ''@_user_1'' (Some [bot_mention]) = Inr [] \<and>
   regex_literal (m_name bot_mention) \<and> regex_literal (m_key bot_mention)"
  by code_simp

section \<open>Properties of the regular expressions\<close>

lemma nullable_iff: "nullable r \<longleftrightarrow> [] \<in> lang r"
  by (induction r) (auto intro: star.intros)

lemma star_cons:
  assumes "x \<in> star A" "x = c # w"
  shows "\<exists>u v. w = u @ v \<and> c # u \<in> A \<and> v \<in> star A"
  using assms
proof (induction rule: star.induct)
  case star_empty
  then show ?case by simp
next
  case (star_step u v)
  show ?case
  proof (cases u)
    case Nil
    then show ?thesis using star_step by simp
  next
    case (Cons d u')
    then have "d = c" "w = u' @ v" using star_step.prems by simp_all
    then show ?thesis using star_step.hyps(1,2) Cons by blast
  qed
qed

lemma lang_deriv: "lang (deriv c r) = {w. c # w \<in> lang r}"
proof (induction r)
  case (Seq r s)
  show ?case
  proof (rule set_eqI)
    fix w
    show "w \<in> lang (deriv c (Seq r s)) \<longleftrightarrow> w \<in> {w. c # w \<in> lang (Seq r s)}"
    proof
      assume "w \<in> lang (deriv c (Seq r s))"
      then consider (a) u v where "w = u @ v" "c # u \<in> lang r" "v \<in> lang s"
        | (b) "nullable r" "c # w \<in> lang s"
        using Seq by (auto split: if_splits)
      then show "w \<in> {w. c # w \<in> lang (Seq r s)}"
      proof cases
        case a
        then have "c # w = (c # u) @ v" by simp
        then show ?thesis using a(2,3) by (simp del: append_Cons) blast
      next
        case b
        then have "[] \<in> lang r" by (simp add: nullable_iff)
        then have "c # w = [] @ (c # w) \<and> [] \<in> lang r \<and> c # w \<in> lang s" using b by simp
        then show ?thesis by (simp del: append_Nil) blast
      qed
    next
      assume "w \<in> {w. c # w \<in> lang (Seq r s)}"
      then obtain u v where uv: "c # w = u @ v" "u \<in> lang r" "v \<in> lang s" by auto
      show "w \<in> lang (deriv c (Seq r s))"
      proof (cases u)
        case Nil
        then have "nullable r" "c # w \<in> lang s" using uv by (simp_all add: nullable_iff)
        then show ?thesis using Seq by simp
      next
        case (Cons d u')
        then have "w = u' @ v" "c # u' \<in> lang r" using uv by simp_all
        then show ?thesis using Seq uv(3) by auto
      qed
    qed
  qed
next
  case (Star r)
  show ?case
  proof (rule set_eqI)
    fix w
    show "w \<in> lang (deriv c (Star r)) \<longleftrightarrow> w \<in> {w. c # w \<in> lang (Star r)}"
    proof
      assume "w \<in> lang (deriv c (Star r))"
      then obtain u v where "w = u @ v" "c # u \<in> lang r" "v \<in> star (lang r)"
        using Star by auto
      then have "(c # u) @ v \<in> star (lang r)" "c # w = (c # u) @ v"
        by (auto intro: star.star_step simp del: append_Cons)
      then show "w \<in> {w. c # w \<in> lang (Star r)}" by simp
    next
      assume "w \<in> {w. c # w \<in> lang (Star r)}"
      then have "c # w \<in> star (lang r)" by simp
      then obtain u v where "w = u @ v" "c # u \<in> lang r" "v \<in> star (lang r)"
        using star_cons by blast
      then show "w \<in> lang (deriv c (Star r))" using Star by auto
    qed
  qed
qed auto

lemma rx_match_iff: "rx_match r s \<longleftrightarrow> s \<in> lang r"
  by (induction s arbitrary: r) (simp_all add: nullable_iff lang_deriv)

lemma lang_lit: "lang (lit s) = {s}"
  by (induction s) (auto simp: lit_def)

lemma star_sym_all: "s \<in> star {[c] |c. p c} \<Longrightarrow> list_all p s"
  by (induction rule: star.induct) auto

lemma all_star_sym: "list_all p s \<Longrightarrow> s \<in> star {[c] |c. p c}"
proof (induction s)
  case Nil
  then show ?case by (simp add: star.star_empty)
next
  case (Cons c s)
  then have "[c] \<in> {[c] |c. p c}" "s \<in> star {[c] |c. p c}" by auto
  then have "[c] @ s \<in> star {[c] |c. p c}" by (rule star.star_step)
  then show ?case by simp
qed

lemma lang_star_sym: "lang (Star (Sym p)) = {s. list_all p s}"
  using star_sym_all all_star_sym by auto

lemma lang_one_or_more_sym: "lang (one_or_more (Sym p)) = {s. s \<noteq> [] \<and> list_all p s}"
proof -
  have "lang (one_or_more (Sym p)) = {u @ v |u v. u \<in> {[c] |c. p c} \<and> v \<in> {s. list_all p s}}"
    unfolding one_or_more_def by (simp only: lang.simps(4) lang_star_sym) (simp only: lang.simps(3))
  also have "\<dots> = {s. s \<noteq> [] \<and> list_all p s}"
  proof (rule set_eqI)
    fix s
    show "s \<in> {u @ v |u v. u \<in> {[c] |c. p c} \<and> v \<in> {s. list_all p s}} \<longleftrightarrow>
          s \<in> {s. s \<noteq> [] \<and> list_all p s}"
    proof (cases s)
      case Nil
      then show ?thesis by simp
    next
      case (Cons c cs)
      show ?thesis
      proof
        assume "s \<in> {u @ v |u v. u \<in> {[c] |c. p c} \<and> v \<in> {s. list_all p s}}"
        then obtain d v where "s = [d] @ v" "p d" "list_all p v" by blast
        then show "s \<in> {s. s \<noteq> [] \<and> list_all p s}" by simp
      next
        assume "s \<in> {s. s \<noteq> [] \<and> list_all p s}"
        then have "s = [c] @ cs" "p c" "list_all p cs" using Cons by simp_all
        then show "s \<in> {u @ v |u v. u \<in> {[c] |c. p c} \<and> v \<in> {s. list_all p s}}" by blast
      qed
    qed
  qed
  finally show ?thesis .
qed

lemma lang_any_star: "lang (Star any_char) = UNIV"
  by (simp only: any_char_def lang_star_sym) (simp add: list_all_iff)

lemma rx_test_iff: "rx_test r s \<longleftrightarrow> (\<exists>a m b. s = a @ m @ b \<and> m \<in> lang r)"
proof -
  have "rx_test r s \<longleftrightarrow> s \<in> {u @ v |u v. u \<in> lang (Star any_char) \<and>
          v \<in> {m @ b |m b. m \<in> lang r \<and> b \<in> lang (Star any_char)}}"
    by (simp add: rx_test_def rx_match_iff del: lang.simps(6))
  then show ?thesis by (simp only: lang_any_star) auto
qed

lemma test_fence_general:
  "rx_test (Seq (lit p) (Seq (Star any_char) (lit q))) text \<longleftrightarrow>
     (\<exists>a b c. text = a @ p @ b @ q @ c)"
proof -
  have L: "lang (Seq (lit p) (Seq (Star any_char) (lit q))) = {p @ b @ q |b. True}"
    by (simp only: lang.simps(4) lang_lit lang_any_star) auto
  show ?thesis
  proof
    assume "rx_test (Seq (lit p) (Seq (Star any_char) (lit q))) text"
    then obtain a m b where "text = a @ m @ b"
      "m \<in> lang (Seq (lit p) (Seq (Star any_char) (lit q)))"
      using rx_test_iff by blast
    moreover then obtain b' where "m = p @ b' @ q" unfolding L by blast
    ultimately have "text = a @ p @ b' @ q @ b" by simp
    then show "\<exists>a b c. text = a @ p @ b @ q @ c" by blast
  next
    assume "\<exists>a b c. text = a @ p @ b @ q @ c"
    then obtain a b c where "text = a @ p @ b @ q @ c" by blast
    then have "text = a @ (p @ b @ q) @ c" by simp
    moreover have "p @ b @ q \<in> lang (Seq (lit p) (Seq (Star any_char) (lit q)))"
      unfolding L by blast
    ultimately show "rx_test (Seq (lit p) (Seq (Star any_char) (lit q))) text"
      using rx_test_iff by blast
  qed
qed

lemma fenced_iff: "rx_test fence_rx text \<longleftrightarrow> has_fenced_block text"
  by (simp only: fence_rx_def has_fenced_block_def test_fence_general)

lemma lang_row: "lang (Seq (lit k) (Seq (one_or_more (Sym P)) r)) =
    {k @ x @ v |x v. x \<noteq> [] \<and> list_all P x \<and> v \<in> lang r}"
  by (simp only: lang.simps(4) lang_one_or_more_sym lang_lit) blast

lemma test_table_general:
  "rx_test (Seq (lit k) (Seq (one_or_more (Sym P)) (Seq (lit k)
       (Seq (one_or_more (Sym Q)) (Seq (lit k)
         (Seq (one_or_more (Sym R)) (lit k))))))) text \<longleftrightarrow>
     (\<exists>a hdr nl sep b.
        text = a @ k @ hdr @ k @ nl @ k @ sep @ k @ b \<and>
        hdr \<noteq> [] \<and> list_all P hdr \<and> nl \<noteq> [] \<and> list_all Q nl \<and> sep \<noteq> [] \<and> list_all R sep)"
  (is "rx_test ?r text \<longleftrightarrow> ?rhs")
proof
  assume "rx_test ?r text"
  then obtain a m b where t: "text = a @ m @ b" and m: "m \<in> lang ?r"
    using rx_test_iff by blast
  from m obtain hdr v1 where 1: "m = k @ hdr @ v1" "hdr \<noteq> []" "list_all P hdr"
    and v1: "v1 \<in> lang (Seq (lit k) (Seq (one_or_more (Sym Q)) (Seq (lit k)
         (Seq (one_or_more (Sym R)) (lit k)))))"
    unfolding lang_row by blast
  from v1 obtain nl v2 where 2: "v1 = k @ nl @ v2" "nl \<noteq> []" "list_all Q nl"
    and v2: "v2 \<in> lang (Seq (lit k) (Seq (one_or_more (Sym R)) (lit k)))"
    unfolding lang_row by blast
  from v2 obtain sep v3 where 3: "v2 = k @ sep @ v3" "sep \<noteq> []" "list_all R sep"
    and v3: "v3 \<in> lang (lit k)"
    unfolding lang_row by blast
  have "text = a @ k @ hdr @ k @ nl @ k @ sep @ k @ b"
    using t 1(1) 2(1) 3(1) v3 by (simp add: lang_lit)
  then show ?rhs using 1(2,3) 2(2,3) 3(2,3) by blast
next
  assume ?rhs
  then obtain a hdr nl sep b where t: "text = a @ k @ hdr @ k @ nl @ k @ sep @ k @ b"
    and h: "hdr \<noteq> []" "list_all P hdr" "nl \<noteq> []" "list_all Q nl" "sep \<noteq> []" "list_all R sep"
    by blast
  have "k \<in> lang (lit k)" by (simp add: lang_lit)
  then have "k @ sep @ k \<in> lang (Seq (lit k) (Seq (one_or_more (Sym R)) (lit k)))"
    unfolding lang_row using h(5,6) by blast
  then have "k @ nl @ (k @ sep @ k) \<in> lang (Seq (lit k) (Seq (one_or_more (Sym Q)) (Seq (lit k)
         (Seq (one_or_more (Sym R)) (lit k)))))"
    unfolding lang_row using h(3,4) by blast
  then have "k @ hdr @ (k @ nl @ (k @ sep @ k)) \<in> lang ?r"
    unfolding lang_row using h(1,2) by blast
  moreover have "text = a @ (k @ hdr @ (k @ nl @ (k @ sep @ k))) @ b" using t by simp
  ultimately show "rx_test ?r text" using rx_test_iff by blast
qed

lemma table_iff: "rx_test table_rx text \<longleftrightarrow> has_table_pattern text"
  by (simp only: table_rx_def has_table_pattern_def test_table_general)

lemma shouldUseCard_iff: "shouldUseCard text \<longleftrightarrow> has_fenced_block text \<or> has_table_pattern text"
  by (simp add: shouldUseCard_def fenced_iff table_iff)

section \<open>Properties of the effects\<close>

lemma keeps_ret: "keeps_histories (ret a)"
  by (simp add: keeps_histories_def ret_def)

lemma keeps_emit: "keeps_histories (emit c)"
  by (simp add: keeps_histories_def emit_def)

lemma keeps_ask: "keeps_histories (ask c f)"
  by (simp add: keeps_histories_def ask_def)

lemma keeps_ask_now: "keeps_histories (\<lambda>w. ask (c w) (f w) w)"
  by (simp add: keeps_histories_def ask_def)

lemma keeps_bnd:
  assumes "keeps_histories f" "\<And>a. keeps_histories (g a)"
  shows "keeps_histories (bnd f g)"
proof -
  have "chatHistories (snd (bnd f g w)) = chatHistories w" for w
  proof (cases "f w")
    case (Pair r w')
    then have "chatHistories w' = chatHistories w"
      using assms(1) by (metis keeps_histories_def snd_conv)
    then show ?thesis using Pair assms(2)
      by (cases r) (simp_all add: bnd_def keeps_histories_def)
  qed
  then show ?thesis by (simp add: keeps_histories_def)
qed

lemma keeps_try:
  assumes "keeps_histories f" "\<And>e. keeps_histories (h e)"
  shows "keeps_histories (try_catch f h)"
proof -
  have "chatHistories (snd (try_catch f h w)) = chatHistories w" for w
  proof (cases "f w")
    case (Pair r w')
    then have "chatHistories w' = chatHistories w"
      using assms(1) by (metis keeps_histories_def snd_conv)
    then show ?thesis using Pair assms(2)
      by (cases r) (simp_all add: try_catch_def keeps_histories_def)
  qed
  then show ?thesis by (simp add: keeps_histories_def)
qed

lemma keeps_detect: "keeps_histories (detect_contentType E result)"
  by (simp add: detect_contentType_def keeps_ask keeps_ret)

lemma keeps_embedded_image: "keeps_histories (resolve_embedded_image E mid mb out k)"
  unfolding resolve_embedded_image_def
  by (intro keeps_try keeps_bnd keeps_ask keeps_emit keeps_ret keeps_detect)

lemma keeps_embedded_images: "keeps_histories (resolve_embedded_images E mid mb ks out)"
proof -
  have "chatHistories (snd (resolve_embedded_images E mid mb ks out w)) = chatHistories w" for w
  proof (induction ks arbitrary: out w)
    case Nil
    then show ?case by (simp add: ret_def)
  next
    case (Cons k ks)
    obtain r w' where s: "resolve_embedded_image E mid mb out k w = (r, w')" by fastforce
    then have "chatHistories w' = chatHistories w"
      using keeps_embedded_image [of E mid mb out k] by (metis keeps_histories_def snd_conv)
    then show ?case using s Cons.IH by (cases r) simp_all
  qed
  then show ?thesis by (simp add: keeps_histories_def)
qed

lemma keeps_single_media: "keeps_histories (resolve_single_media E mid mt mb keys)"
  unfolding resolve_single_media_def Let_def
  by (intro keeps_try keeps_bnd keeps_emit keeps_ret)
     (auto intro!: keeps_bnd keeps_ask keeps_emit keeps_ret keeps_detect split: option.splits)

lemma keeps_media_list: "keeps_histories (resolveFeishuMediaList E mid mt c mb)"
  unfolding resolveFeishuMediaList_def Let_def
  by (auto intro!: keeps_bnd keeps_emit keeps_ret keeps_embedded_images keeps_single_media)

lemma keeps_fetch_quoted: "keeps_histories (fetch_quoted E ctx)"
  unfolding fetch_quoted_def
  by (auto intro!: keeps_try keeps_bnd keeps_ask keeps_emit keeps_ret split: option.splits)

lemma keeps_format_entries: "keeps_histories (format_entries E cid es)"
proof -
  have "chatHistories (snd (format_entries E cid es w)) = chatHistories w" for w
  proof (induction es arbitrary: w)
    case Nil
    then show ?case by (simp add: ret_def)
  next
    case (Cons e es)
    obtain r w' where s: "formatEntry E cid e w = (r, w')" by fastforce
    then have h: "chatHistories w' = chatHistories w" by (auto simp: formatEntry_def ask_def)
    obtain r2 w2 where s2: "format_entries E cid es w' = (r2, w2)" by fastforce
    then have "chatHistories w2 = chatHistories w'" using Cons.IH [of w'] by simp
    then show ?case using s s2 h by (cases r; cases r2) simp_all
  qed
  then show ?thesis by (simp add: keeps_histories_def)
qed

lemma keeps_combined_body: "keeps_histories (combined_body E ctx limit body)"
proof -
  have "keeps_histories (buildPendingHistoryContextFromMap E m k limit body)" for m k
    unfolding buildPendingHistoryContextFromMap_def
    by (auto intro!: keeps_bnd keeps_ret keeps_format_entries)
  then show ?thesis
    by (auto simp: keeps_histories_def combined_body_def ret_def split: option.splits)
qed

lemma extends_ret: "extends_calls (ret a)"
  by (simp add: extends_calls_def ret_def)

lemma extends_emit: "extends_calls (emit c)"
  by (simp add: extends_calls_def emit_def)

lemma extends_ask: "extends_calls (ask c f)"
  by (simp add: extends_calls_def ask_def)

lemma extends_bnd:
  assumes "extends_calls f" "\<And>a. extends_calls (g a)"
  shows "extends_calls (bnd f g)"
proof -
  have "\<exists>more. calls (snd (bnd f g w)) = calls w @ more" for w
  proof (cases "f w")
    case (Pair r w1)
    from assms(1) Pair obtain m1 where m1: "calls w1 = calls w @ m1"
      by (metis extends_calls_def snd_conv)
    show ?thesis
    proof (cases r)
      case (Inl e)
      then show ?thesis using Pair m1 by (simp add: bnd_def)
    next
      case (Inr a)
      from assms(2) [of a] obtain m2 where "calls (snd (g a w1)) = calls w1 @ m2"
        by (metis extends_calls_def)
      then show ?thesis using Pair Inr m1 by (simp add: bnd_def)
    qed
  qed
  then show ?thesis by (simp add: extends_calls_def)
qed

lemma extends_detect: "extends_calls (detect_contentType E result)"
  by (simp add: detect_contentType_def extends_ask extends_ret)

lemma first_ask_bnd:
  assumes "\<And>a. extends_calls (g a)"
  shows "first_call c (bnd (ask c f) g)"
proof -
  have "\<exists>rest. calls (snd (bnd (ask c f) g w)) = calls w @ c # rest" for w
  proof (cases "f (calls w)")
    case (Inl e)
    then show ?thesis by (simp add: bnd_def ask_def)
  next
    case (Inr a)
    from assms [of a] obtain m where
      "calls (snd (g a (w\<lparr>calls := calls w @ [c]\<rparr>))) = calls (w\<lparr>calls := calls w @ [c]\<rparr>) @ m"
      by (metis extends_calls_def)
    then show ?thesis using Inr by (simp add: bnd_def ask_def)
  qed
  then show ?thesis by (simp add: first_call_def)
qed

lemma first_try:
  assumes "first_call c f" "\<And>e. extends_calls (h e)"
  shows "first_call c (try_catch f h)"
proof -
  have "\<exists>rest. calls (snd (try_catch f h w)) = calls w @ c # rest" for w
  proof (cases "f w")
    case (Pair r w1)
    from assms(1) Pair obtain m1 where m1: "calls w1 = calls w @ c # m1"
      by (metis first_call_def snd_conv)
    show ?thesis
    proof (cases r)
      case (Inl e)
      from assms(2) [of e] obtain m2 where "calls (snd (h e w1)) = calls w1 @ m2"
        by (metis extends_calls_def)
      then show ?thesis using Pair Inl m1 by (simp add: try_catch_def)
    next
      case (Inr a)
      then show ?thesis using Pair m1 by (simp add: try_catch_def)
    qed
  qed
  then show ?thesis by (simp add: first_call_def)
qed

lemma clears_bnd:
  assumes "keeps_histories f" "\<And>a. clears_after_dispatch E ctx limit (g a)"
  shows "clears_after_dispatch E ctx limit (bnd f g)"
proof -
  have "(isl (fst (bnd f g w)) \<longrightarrow> chatHistories (snd (bnd f g w)) = chatHistories w) \<and>
          (\<not> isl (fst (bnd f g w)) \<longrightarrow>
             chatHistories (snd (bnd f g w)) = cleared_histories ctx limit (chatHistories w) \<and>
             dispatch_completed E (calls (snd (bnd f g w))))" for w
  proof (cases "f w")
    case (Pair r w1)
    then have k: "chatHistories w1 = chatHistories w"
      using assms(1) by (metis keeps_histories_def snd_conv)
    show ?thesis
    proof (cases r)
      case (Inl e)
      then show ?thesis using Pair k by (simp add: bnd_def)
    next
      case (Inr a)
      then have "bnd f g w = g a w1" using Pair by (simp add: bnd_def)
      then show ?thesis
        using assms(2) [of a, unfolded clears_after_dispatch_def] k by metis
    qed
  qed
  then show ?thesis by (simp add: clears_after_dispatch_def)
qed

lemma clears_tail:
  "clears_after_dispatch E ctx limit
     (bnd (ask (DispatchReplyFromConfig payload) (\<lambda>cs. dispatchReplyFromConfig E cs payload))
        (\<lambda>result.
      bnd (ask MarkDispatchIdle (markDispatchIdle E)) (\<lambda>u.
      bnd (clear_pending ctx limit) (\<lambda>u.
      emit (Log (msg result))))))"
  (is "clears_after_dispatch E ctx limit ?f")
proof -
  have "(isl (fst (?f w)) \<longrightarrow> chatHistories (snd (?f w)) = chatHistories w) \<and>
          (\<not> isl (fst (?f w)) \<longrightarrow>
             chatHistories (snd (?f w)) = cleared_histories ctx limit (chatHistories w) \<and>
             dispatch_completed E (calls (snd (?f w))))" for w
  proof (cases "dispatchReplyFromConfig E (calls w) payload")
    case (Inl e)
    then show ?thesis by (simp add: bnd_def ask_def)
  next
    case (Inr result)
    show ?thesis
    proof (cases "markDispatchIdle E (calls w @ [DispatchReplyFromConfig payload])")
      case (Inl e)
      then show ?thesis using Inr by (simp add: bnd_def ask_def)
    next
      case Inr2: (Inr u)
      have "dispatch_completed E
          (calls w @ [DispatchReplyFromConfig payload, MarkDispatchIdle, Log (msg result)])"
        unfolding dispatch_completed_def using Inr Inr2 by auto
      then show ?thesis using Inr Inr2
        by (auto simp: bnd_def ask_def emit_def clear_pending_def cleared_histories_def
            split: option.splits)
    qed
  qed
  then show ?thesis by (simp add: clears_after_dispatch_def)
qed

lemma clears_dispatch_body: "clears_after_dispatch E ctx limit (dispatch_body E cfg event ctx limit)"
  unfolding dispatch_body_def Let_def
  by (intro clears_bnd clears_tail keeps_ask keeps_ask_now keeps_emit keeps_media_list
      keeps_fetch_quoted keeps_combined_body)

section \<open>Properties of the reply dispatcher\<close>

lemma send_all_calls:
  "\<exists>n\<le>length chunks.
     calls (snd (send_all (\<lambda>chunk. ask (mk chunk) (f chunk)) chunks w)) =
       calls w @ map mk (take n chunks) \<and>
     (fst (send_all (\<lambda>chunk. ask (mk chunk) (f chunk)) chunks w) = Inr () \<longrightarrow> n = length chunks)"
proof (induction chunks arbitrary: w)
  case Nil
  then show ?case by (simp add: ret_def)
next
  case (Cons c cs)
  define w1 where "w1 = w\<lparr>calls := calls w @ [mk c]\<rparr>"
  show ?case
  proof (cases "f c (calls w)")
    case (Inl e)
    then have "send_all (\<lambda>chunk. ask (mk chunk) (f chunk)) (c # cs) w = (Inl e, w1)"
      by (simp add: ask_def w1_def)
    then have "calls (snd (send_all (\<lambda>chunk. ask (mk chunk) (f chunk)) (c # cs) w)) =
        calls w @ map mk (take 1 (c # cs)) \<and>
      (fst (send_all (\<lambda>chunk. ask (mk chunk) (f chunk)) (c # cs) w) = Inr () \<longrightarrow>
         1 = length (c # cs))"
      by (simp add: w1_def)
    moreover have "(1::nat) \<le> length (c # cs)" by simp
    ultimately show ?thesis by blast
  next
    case (Inr u)
    then have s: "send_all (\<lambda>chunk. ask (mk chunk) (f chunk)) (c # cs) w =
        send_all (\<lambda>chunk. ask (mk chunk) (f chunk)) cs w1"
      by (simp add: ask_def w1_def)
    from Cons.IH [of w1] obtain n where n: "n \<le> length cs"
      "calls (snd (send_all (\<lambda>chunk. ask (mk chunk) (f chunk)) cs w1)) =
         calls w1 @ map mk (take n cs)"
      "fst (send_all (\<lambda>chunk. ask (mk chunk) (f chunk)) cs w1) = Inr () \<longrightarrow> n = length cs"
      by blast
    have "Suc n \<le> length (c # cs) \<and>
      calls (snd (send_all (\<lambda>chunk. ask (mk chunk) (f chunk)) (c # cs) w)) =
        calls w @ map mk (take (Suc n) (c # cs)) \<and>
      (fst (send_all (\<lambda>chunk. ask (mk chunk) (f chunk)) (c # cs) w) = Inr () \<longrightarrow>
         Suc n = length (c # cs))"
      using n s by (simp add: w1_def)
    then show ?thesis by blast
  qed
qed

lemma filter_delivery_cards [simp]:
  "filter is_delivery (map (\<lambda>c. SendMarkdownCard cid c r) cs) = map (\<lambda>c. SendMarkdownCard cid c r) cs"
  by (induction cs) auto

lemma filter_delivery_texts [simp]:
  "filter is_delivery (map (\<lambda>c. SendMessage cid c r) cs) = map (\<lambda>c. SendMessage cid c r) cs"
  by (induction cs) auto

lemma deliver_nonblank:
  assumes "trim t \<noteq> []"
  shows "deliver E fc cid rt lim cm tm (Some t) w =
    (if (case Option.bind fc cfg_renderMode of Some r \<Rightarrow> r | None \<Rightarrow> RenderAuto) = RenderCard \<or>
        ((case Option.bind fc cfg_renderMode of Some r \<Rightarrow> r | None \<Rightarrow> RenderAuto) = RenderAuto \<and>
         shouldUseCard t)
     then send_all (\<lambda>chunk. ask (SendMarkdownCard cid chunk rt)
                         (\<lambda>cs. sendMarkdownCardFeishu E cs cid chunk rt))
            (chunkTextWithMode E t lim cm)
            (w\<lparr>calls := calls w @
               [Log (''feishu deliver called: text='' @ take 100 t),
                Log (''feishu deliver: sending '' @
                       dec_nat (length (chunkTextWithMode E t lim cm)) @
                       '' card chunks to '' @ cid)]\<rparr>)
     else send_all (\<lambda>chunk. ask (SendMessage cid chunk rt)
                         (\<lambda>cs. sendMessageFeishu E cs cid chunk rt))
            (chunkTextWithMode E (convertMarkdownTables E t tm) lim cm)
            (w\<lparr>calls := calls w @
               [Log (''feishu deliver called: text='' @ take 100 t),
                Log (''feishu deliver: sending '' @
                       dec_nat (length (chunkTextWithMode E (convertMarkdownTables E t tm) lim cm)) @
                       '' text chunks to '' @ cid)]\<rparr>))"
  using assms by (simp add: deliver_def bnd_def emit_def Let_def)

subsection \<open>C7: the render decision\<close>

text \<open>
  C7. For every reply fragment that is not blank, render mode \<open>card\<close> sends rich
  cards and \<open>raw\<close> sends plain text; under \<open>auto\<close>, which is also the mode when none is
  configured, rich cards are sent iff the fragment contains a fenced code block or a
  markdown table pattern, plain text otherwise. The deliveries are the chunks in
  order, up to the first send that throws: on the plain-text path the chunks of the
  fragment with its tables converted, on the card path the chunks of the fragment as
  it is. A blank fragment causes no delivery call.
\<close>

theorem render_decision:
  fixes E feishuCfg cid replyTo lim cm tm fragment w
  defines "mode \<equiv> (case Option.bind feishuCfg cfg_renderMode of Some r \<Rightarrow> r | None \<Rightarrow> RenderAuto)"
  defines "useCard \<equiv>
     (mode = RenderCard \<or> (mode = RenderAuto \<and> (has_fenced_block fragment \<or> has_table_pattern fragment)))"
  defines "out \<equiv> deliver E feishuCfg cid replyTo lim cm tm (Some fragment) w"
  defines "cardChunks \<equiv> chunkTextWithMode E fragment lim cm"
  defines "textChunks \<equiv> chunkTextWithMode E (convertMarkdownTables E fragment tm) lim cm"
  shows "\<exists>new. calls (snd out) = calls w @ new \<and>
    (trim fragment = [] \<longrightarrow> fst out = Inr () \<and> filter is_delivery new = []) \<and>
    (trim fragment \<noteq> [] \<and> useCard \<longrightarrow>
       (\<exists>n\<le>length cardChunks.
          filter is_delivery new = map (\<lambda>c. SendMarkdownCard cid c replyTo) (take n cardChunks) \<and>
          (fst out = Inr () \<longrightarrow> n = length cardChunks))) \<and>
    (trim fragment \<noteq> [] \<and> \<not> useCard \<longrightarrow>
       (\<exists>n\<le>length textChunks.
          filter is_delivery new = map (\<lambda>c. SendMessage cid c replyTo) (take n textChunks) \<and>
          (fst out = Inr () \<longrightarrow> n = length textChunks)))"
proof -
  define l1 where "l1 = Log (''feishu deliver called: text='' @ take 100 fragment)"
  define w1 where "w1 = w\<lparr>calls := calls w @ [l1]\<rparr>"
  have uc: "useCard \<longleftrightarrow> mode = RenderCard \<or> (mode = RenderAuto \<and> shouldUseCard fragment)"
    by (simp add: useCard_def shouldUseCard_iff)
  consider (blank) "trim fragment = []" | (card) "trim fragment \<noteq> []" "useCard"
    | (raw) "trim fragment \<noteq> []" "\<not> useCard" by blast
  then show ?thesis
  proof cases
    case blank
    then have "out = (Inr (), w\<lparr>calls := calls w @ [l1, Log ''feishu deliver: empty text, skipping'']\<rparr>)"
      by (simp add: out_def deliver_def bnd_def emit_def l1_def)
    then show ?thesis using blank by (simp add: l1_def)
  next
    case card
    define l2 where "l2 = Log (''feishu deliver: sending '' @ dec_nat (length cardChunks) @
                             '' card chunks to '' @ cid)"
    define w2 where "w2 = w\<lparr>calls := calls w @ [l1, l2]\<rparr>"
    have c: "(mode = RenderCard \<or> (mode = RenderAuto \<and> shouldUseCard fragment)) = True"
      using card uc by simp
    have o: "out = send_all (\<lambda>chunk. ask (SendMarkdownCard cid chunk replyTo)
                         (\<lambda>cs. sendMarkdownCardFeishu E cs cid chunk replyTo)) cardChunks w2"
      unfolding out_def deliver_nonblank [OF card(1)] mode_def [symmetric] c
      by (simp only: if_True l1_def l2_def w2_def cardChunks_def)
    obtain n where n: "n \<le> length cardChunks"
      "calls (snd out) = calls w2 @ map (\<lambda>c. SendMarkdownCard cid c replyTo) (take n cardChunks)"
      "fst out = Inr () \<longrightarrow> n = length cardChunks"
      unfolding o using send_all_calls [of cardChunks "\<lambda>c. SendMarkdownCard cid c replyTo"
          "\<lambda>chunk cs. sendMarkdownCardFeishu E cs cid chunk replyTo" w2] by blast
    have "calls (snd out) =
        calls w @ ([l1, l2] @ map (\<lambda>c. SendMarkdownCard cid c replyTo) (take n cardChunks))"
      using n(2) by (simp add: w2_def)
    moreover have "filter is_delivery
        ([l1, l2] @ map (\<lambda>c. SendMarkdownCard cid c replyTo) (take n cardChunks)) =
        map (\<lambda>c. SendMarkdownCard cid c replyTo) (take n cardChunks)"
      by (simp add: l1_def l2_def)
    ultimately show ?thesis using card n(1,3) by blast
  next
    case raw
    define l2 where "l2 = Log (''feishu deliver: sending '' @ dec_nat (length textChunks) @
                             '' text chunks to '' @ cid)"
    define w2 where "w2 = w\<lparr>calls := calls w @ [l1, l2]\<rparr>"
    have c: "(mode = RenderCard \<or> (mode = RenderAuto \<and> shouldUseCard fragment)) = False"
      using raw uc by simp
    have o: "out = send_all (\<lambda>chunk. ask (SendMessage cid chunk replyTo)
                         (\<lambda>cs. sendMessageFeishu E cs cid chunk replyTo)) textChunks w2"
      unfolding out_def deliver_nonblank [OF raw(1)] mode_def [symmetric] c
      by (simp only: if_False l1_def l2_def w2_def textChunks_def)
    obtain n where n: "n \<le> length textChunks"
      "calls (snd out) = calls w2 @ map (\<lambda>c. SendMessage cid c replyTo) (take n textChunks)"
      "fst out = Inr () \<longrightarrow> n = length textChunks"
      unfolding o using send_all_calls [of textChunks "\<lambda>c. SendMessage cid c replyTo"
          "\<lambda>chunk cs. sendMessageFeishu E cs cid chunk replyTo" w2] by blast
    have "calls (snd out) =
        calls w @ ([l1, l2] @ map (\<lambda>c. SendMessage cid c replyTo) (take n textChunks))"
      using n(2) by (simp add: w2_def)
    moreover have "filter is_delivery
        ([l1, l2] @ map (\<lambda>c. SendMessage cid c replyTo) (take n textChunks)) =
        map (\<lambda>c. SendMessage cid c replyTo) (take n textChunks)"
      by (simp add: l1_def l2_def)
    ultimately show ?thesis using raw n(1,3) by blast
  qed
qed

theorem render_decision_witness:
  "filter is_delivery
     (calls (snd (deliver example_env None ''oc_team'' (Some ''om_3'') 4000 ''length'' ''off''
                    (Some table_reply) example_world))) =
     [SendMarkdownCard ''oc_team'' table_reply (Some ''om_3'')] \<and>
   filter is_delivery
     (calls (snd (deliver example_env None ''oc_team'' (Some ''om_3'') 4000 ''length'' ''off''
                    (Some ''plain prose'') example_world))) =
     [SendMessage ''oc_team'' ''converted:plain prose'' (Some ''om_3'')] \<and>
   filter is_delivery
     (calls (snd (deliver example_env None ''oc_team'' (Some ''om_3'') 4000 ''length'' ''off''
                    (Some ''   '') example_world))) = []"
proof -
  have t: "trim table_reply \<noteq> []" "trim ''plain prose'' \<noteq> []" "trim ''   '' = []"
    by code_simp+
  have "shouldUseCard table_reply" by code_simp
  then have card: "has_fenced_block table_reply \<or> has_table_pattern table_reply"
    by (simp add: shouldUseCard_iff)
  have "\<not> shouldUseCard ''plain prose''" by code_simp
  then have raw: "\<not> (has_fenced_block ''plain prose'' \<or> has_table_pattern ''plain prose'')"
    by (simp add: shouldUseCard_iff)
  have ok: "fst (deliver example_env None ''oc_team'' (Some ''om_3'') 4000 ''length'' ''off''
                    (Some table_reply) example_world) = Inr ()"
    "fst (deliver example_env None ''oc_team'' (Some ''om_3'') 4000 ''length'' ''off''
                    (Some ''plain prose'') example_world) = Inr ()"
    by code_simp+
  have ch: "chunkTextWithMode example_env table_reply 4000 ''length'' = [table_reply]"
    "chunkTextWithMode example_env (convertMarkdownTables example_env ''plain prose'' ''off'') 4000
       ''length'' = [''converted:plain prose'']"
    "calls example_world = []"
    by (simp_all add: example_env_def example_world_def)
  have m: "(case Option.bind None cfg_renderMode of Some r \<Rightarrow> r | None \<Rightarrow> RenderAuto) = RenderAuto"
    by simp
  show ?thesis
    using render_decision [of example_env None "''oc_team''" "Some ''om_3''" 4000 "''length''"
        "''off''" table_reply example_world]
      render_decision [of example_env None "''oc_team''" "Some ''om_3''" 4000 "''length''"
        "''off''" "''plain prose''" example_world]
      render_decision [of example_env None "''oc_team''" "Some ''om_3''" 4000 "''length''"
        "''off''" "''   ''" example_world]
      t card raw ok
    unfolding ch m by auto
qed

section \<open>Properties of media resolution\<close>

lemma image_download_simps [simp]:
  "is_download (image_download mid k)" "\<not> is_embedded_failure (image_download mid k)"
  by (simp_all add: image_download_def)

lemma embedded_image_step:
  "\<exists>new. calls (snd (resolve_embedded_image E mid mb out k w)) = calls w @ new \<and>
     filter is_download new = [image_download mid k] \<and>
     ((\<exists>m. fst (resolve_embedded_image E mid mb out k w) = Inr (out @ [m]) \<and>
           mi_placeholder m = ''<media:image>'' \<and> filter is_embedded_failure new = []) \<or>
      (fst (resolve_embedded_image E mid mb out k w) = Inr out \<and>
       length (filter is_embedded_failure new) = 1))"
proof (cases "downloadMessageResourceFeishu E (calls w) mid k ''image''")
  case (Inl e)
  then have "resolve_embedded_image E mid mb out k w =
      (Inr out, w\<lparr>calls := calls w @ [image_download mid k,
         Log (''feishu: failed to download embedded image '' @ k @ '': '' @ String_err e)]\<rparr>)"
    by (simp add: resolve_embedded_image_def try_catch_def bnd_def ask_def emit_def ret_def
        image_download_def)
  then show ?thesis by (simp add: image_download_def)
next
  case (Inr result)
  define w1 where "w1 = w\<lparr>calls := calls w @ [image_download mid k]\<rparr>"
  obtain ct w2 where d: "detect_contentType E result w1 = (ct, w2)" by fastforce
  then have w2: "w2 = w1 \<or> w2 = w1\<lparr>calls := calls w1 @ [DetectMime (dl_buffer result)]\<rparr>"
    by (auto simp: detect_contentType_def ask_def ret_def split: if_splits)
  then obtain pre where pre: "calls w2 = calls w @ image_download mid k # pre"
    "filter is_download pre = []" "filter is_embedded_failure pre = []"
    by (auto simp: w1_def)
  show ?thesis
  proof (cases ct)
    case (Inl e)
    then have "resolve_embedded_image E mid mb out k w =
      (Inr out, w2\<lparr>calls := calls w2 @
         [Log (''feishu: failed to download embedded image '' @ k @ '': '' @ String_err e)]\<rparr>)"
      using Inr d
      by (simp add: resolve_embedded_image_def try_catch_def bnd_def ask_def emit_def ret_def
          image_download_def w1_def)
    then show ?thesis using pre by simp
  next
    case ct: (Inr ctype)
    show ?thesis
    proof (cases "saveMediaBuffer E (calls w2) (dl_buffer result) ctype ''inbound'' mb None")
      case (Inl e)
      then have "resolve_embedded_image E mid mb out k w =
        (Inr out, w2\<lparr>calls := calls w2 @
           [SaveMediaBuffer (dl_buffer result) ctype ''inbound'' mb None,
            Log (''feishu: failed to download embedded image '' @ k @ '': '' @ String_err e)]\<rparr>)"
        using Inr d ct
        by (simp add: resolve_embedded_image_def try_catch_def bnd_def ask_def emit_def ret_def
            image_download_def w1_def)
      then show ?thesis using pre by simp
    next
      case sv: (Inr saved)
      then have "resolve_embedded_image E mid mb out k w =
        (Inr (out @ [\<lparr>mi_path = sv_path saved, mi_contentType = sv_contentType saved,
                     mi_placeholder = ''<media:image>''\<rparr>]),
         w2\<lparr>calls := calls w2 @
           [SaveMediaBuffer (dl_buffer result) ctype ''inbound'' mb None,
            Log (''feishu: downloaded embedded image '' @ k @ '', saved to '' @ sv_path saved)]\<rparr>)"
        using Inr d ct
        by (simp add: resolve_embedded_image_def try_catch_def bnd_def ask_def emit_def ret_def
            image_download_def w1_def)
      then show ?thesis using pre by simp
    qed
  qed
qed

lemma embedded_images_loop:
  "\<exists>new ms.
     fst (resolve_embedded_images E mid mb ks out w) = Inr (out @ ms) \<and>
     calls (snd (resolve_embedded_images E mid mb ks out w)) = calls w @ new \<and>
     filter is_download new = map (image_download mid) ks \<and>
     length ms + length (filter is_embedded_failure new) = length ks \<and>
     list_all (\<lambda>m. mi_placeholder m = ''<media:image>'') ms"
proof (induction ks arbitrary: out w)
  case Nil
  have "fst (resolve_embedded_images E mid mb [] out w) = Inr (out @ []) \<and>
     calls (snd (resolve_embedded_images E mid mb [] out w)) = calls w @ [] \<and>
     filter is_download [] = map (image_download mid) [] \<and>
     length ([] :: FeishuMediaInfo list) + length (filter is_embedded_failure []) = length ([] :: string list) \<and>
     list_all (\<lambda>m. mi_placeholder m = ''<media:image>'') []"
    by (simp add: ret_def)
  then show ?case by blast
next
  case (Cons k ks)
  obtain r w1 where s: "resolve_embedded_image E mid mb out k w = (r, w1)" by fastforce
  from embedded_image_step [of E mid mb out k w] s
  obtain new1 ms1 where 1: "calls w1 = calls w @ new1"
    "filter is_download new1 = [image_download mid k]"
    "r = Inr (out @ ms1)"
    "length ms1 + length (filter is_embedded_failure new1) = 1"
    "list_all (\<lambda>m. mi_placeholder m = ''<media:image>'') ms1"
  proof -
    from embedded_image_step [of E mid mb out k w] s
    obtain new where n: "calls w1 = calls w @ new" "filter is_download new = [image_download mid k]"
      "(\<exists>m. r = Inr (out @ [m]) \<and> mi_placeholder m = ''<media:image>'' \<and>
           filter is_embedded_failure new = []) \<or>
       (r = Inr out \<and> length (filter is_embedded_failure new) = 1)"
      by auto
    from n(3) show ?thesis
    proof
      assume "\<exists>m. r = Inr (out @ [m]) \<and> mi_placeholder m = ''<media:image>'' \<and>
           filter is_embedded_failure new = []"
      then obtain m where "r = Inr (out @ [m])" "mi_placeholder m = ''<media:image>''"
        "filter is_embedded_failure new = []" by blast
      then show ?thesis using that [of new "[m]"] n(1,2) by simp
    next
      assume "r = Inr out \<and> length (filter is_embedded_failure new) = 1"
      then show ?thesis using that [of new "[]"] n(1,2) by simp
    qed
  qed
  from Cons.IH [of "out @ ms1" w1]
  obtain new2 ms2 where 2:
    "fst (resolve_embedded_images E mid mb ks (out @ ms1) w1) = Inr ((out @ ms1) @ ms2)"
    "calls (snd (resolve_embedded_images E mid mb ks (out @ ms1) w1)) = calls w1 @ new2"
    "filter is_download new2 = map (image_download mid) ks"
    "length ms2 + length (filter is_embedded_failure new2) = length ks"
    "list_all (\<lambda>m. mi_placeholder m = ''<media:image>'') ms2"
    by blast
  have e: "resolve_embedded_images E mid mb (k # ks) out w =
      resolve_embedded_images E mid mb ks (out @ ms1) w1"
    using s 1(3) by simp
  have "fst (resolve_embedded_images E mid mb (k # ks) out w) = Inr (out @ (ms1 @ ms2)) \<and>
     calls (snd (resolve_embedded_images E mid mb (k # ks) out w)) = calls w @ (new1 @ new2) \<and>
     filter is_download (new1 @ new2) = map (image_download mid) (k # ks) \<and>
     length (ms1 @ ms2) + length (filter is_embedded_failure (new1 @ new2)) = length (k # ks) \<and>
     list_all (\<lambda>m. mi_placeholder m = ''<media:image>'') (ms1 @ ms2)"
    unfolding e using 1 2 by simp
  then show ?case by blast
qed

lemma try_catch_total:
  assumes "\<And>e w. \<not> isl (fst (h e w))"
  shows "\<not> isl (fst (try_catch f h w))"
proof (cases "f w")
  case (Pair r w')
  then show ?thesis using assms by (cases r) (simp_all add: try_catch_def)
qed

lemma media_never_throws: "\<not> isl (fst (resolveFeishuMediaList E mid mt c mb w))"
proof -
  have single: "\<not> isl (fst (resolve_single_media E mid mt' mb keys w))" for keys mt'
    unfolding resolve_single_media_def
    by (rule try_catch_total) (simp add: bnd_def emit_def ret_def)
  have loop: "\<not> isl (fst (resolve_embedded_images E mid mb ks [] w'))" for ks w'
    using embedded_images_loop [of E mid mb ks "[]" w'] by auto
  have gen: "\<not> isl (fst ((if a then ret []
       else if b then (if k0 then ret []
                       else bnd (emit l) (\<lambda>u. resolve_embedded_images E mid mb ks []))
       else (if f0 then ret [] else resolve_single_media E mid mt' mb keys)) w))"
    for a b k0 l ks f0 keys mt'
    using single loop by (simp add: ret_def bnd_def emit_def)
  show ?thesis unfolding resolveFeishuMediaList_def Let_def by (rule gen)
qed

subsection \<open>C8: embedded images are resolved one by one\<close>

text \<open>
  C8. For every rich-text message, media resolution returns at most as many entries
  as there are embedded image keys. Every key is downloaded, in order, whatever
  happened to the keys before it; each key yields either one entry, tagged as an
  image, or one logged failure, so a failure on one image does not stop the others.
  \<open>resolveFeishuMediaList\<close> never throws, for any message type.
\<close>

theorem embedded_images_best_effort:
  fixes E mid content mb w
  defines "keys \<equiv> pc_imageKeys (parsePostContent (JSON_parse E) content)"
  defines "out \<equiv> resolveFeishuMediaList E mid ''post'' content mb w"
  shows "(\<exists>ms new.
      fst out = Inr ms \<and> calls (snd out) = calls w @ new \<and>
      length ms \<le> length keys \<and>
      filter is_download new = map (image_download mid) keys \<and>
      length ms + length (filter is_embedded_failure new) = length keys \<and>
      list_all (\<lambda>m. mi_placeholder m = ''<media:image>'') ms) \<and>
    \<not> isl (fst (resolveFeishuMediaList E mid messageType content mb w))"
proof
  show "\<not> isl (fst (resolveFeishuMediaList E mid messageType content mb w))"
    by (rule media_never_throws)
  show "\<exists>ms new.
      fst out = Inr ms \<and> calls (snd out) = calls w @ new \<and>
      length ms \<le> length keys \<and>
      filter is_download new = map (image_download mid) keys \<and>
      length ms + length (filter is_embedded_failure new) = length keys \<and>
      list_all (\<lambda>m. mi_placeholder m = ''<media:image>'') ms"
  proof (cases "keys = []")
    case True
    then have "out = (Inr [], w)"
      by (simp add: out_def resolveFeishuMediaList_def keys_def [symmetric] ret_def)
    then have "fst out = Inr [] \<and> calls (snd out) = calls w @ [] \<and>
      length ([] :: FeishuMediaInfo list) \<le> length keys \<and>
      filter is_download [] = map (image_download mid) keys \<and>
      length ([] :: FeishuMediaInfo list) + length (filter is_embedded_failure []) = length keys \<and>
      list_all (\<lambda>m. mi_placeholder m = ''<media:image>'') []"
      using True by simp
    then show ?thesis by blast
  next
    case False
    define l where "l = Log (''feishu: post message contains '' @ dec_nat (length keys) @
                             '' embedded image(s)'')"
    define w1 where "w1 = w\<lparr>calls := calls w @ [l]\<rparr>"
    have o: "out = resolve_embedded_images E mid mb keys [] w1"
      using False
      by (simp add: out_def resolveFeishuMediaList_def keys_def [symmetric] bnd_def emit_def
          l_def w1_def)
    from embedded_images_loop [of E mid mb keys "[]" w1]
    obtain new ms where n: "fst out = Inr ms" "calls (snd out) = calls w1 @ new"
      "filter is_download new = map (image_download mid) keys"
      "length ms + length (filter is_embedded_failure new) = length keys"
      "list_all (\<lambda>m. mi_placeholder m = ''<media:image>'') ms"
      unfolding o by auto
    have "fst out = Inr ms \<and> calls (snd out) = calls w @ (l # new) \<and>
      length ms \<le> length keys \<and>
      filter is_download (l # new) = map (image_download mid) keys \<and>
      length ms + length (filter is_embedded_failure (l # new)) = length keys \<and>
      list_all (\<lambda>m. mi_placeholder m = ''<media:image>'') ms"
      using n by (simp add: w1_def l_def)
    then show ?thesis by blast
  qed
qed

theorem embedded_images_best_effort_witness:
  "pc_imageKeys (parsePostContent (JSON_parse example_env) post_two_images) = [''img_ok'', ''img_bad''] \<and>
   fst (resolveFeishuMediaList example_env ''om_9'' ''post'' post_two_images 31457280 example_world) =
     Inr [\<lparr>mi_path = ''/media/bytes-of-img_ok'', mi_contentType = Some ''image/png'',
           mi_placeholder = ''<media:image>''\<rparr>] \<and>
   \<not> isl (fst (resolveFeishuMediaList example_env ''om_9'' ''post'' post_two_images 31457280
                 example_world)) \<and>
   filter is_embedded_failure
     (calls (snd (resolveFeishuMediaList example_env ''om_9'' ''post'' post_two_images 31457280
                    example_world))) =
     [Log ''feishu: failed to download embedded image img_bad: Error: download failed'']"
proof -
  have "pc_imageKeys (parsePostContent (JSON_parse example_env) post_two_images) = [''img_ok'', ''img_bad'']"
    by code_simp
  moreover have "fst (resolveFeishuMediaList example_env ''om_9'' ''post'' post_two_images 31457280 example_world) =
     Inr [\<lparr>mi_path = ''/media/bytes-of-img_ok'', mi_contentType = Some ''image/png'',
           mi_placeholder = ''<media:image>''\<rparr>]"
    by code_simp
  moreover have "filter is_embedded_failure
     (calls (snd (resolveFeishuMediaList example_env ''om_9'' ''post'' post_two_images 31457280
                    example_world))) =
     [Log ''feishu: failed to download embedded image img_bad: Error: download failed'']"
    by code_simp
  ultimately show ?thesis
    using embedded_images_best_effort [of example_env "''om_9''" post_two_images 31457280
        example_world "''post''"]
    by blast
qed

subsection \<open>C9: the key fetched for a video\<close>

text \<open>
  C9 claims that for a video message carrying both a file key and a thumbnail image
  key, media resolution fetches the file key. The code does otherwise: \<open>parseMediaKeys\<close>
  returns both keys, and \<open>mediaKeys.imageKey || mediaKeys.fileKey\<close> prefers the image
  key, so the first call is the download of the thumbnail's key, as a resource of type
  \<open>file\<close>.
\<close>

theorem video_download_uses_image_key:
  assumes "JSON_parse E content = Some (JObj kvs)"
    and "map_of kvs ''file_key'' = Some (JStr fk)"
    and "map_of kvs ''image_key'' = Some (JStr ik)"
    and "ik \<noteq> []"
  shows "parseMediaKeys (JSON_parse E) content ''video'' =
      \<lparr>mk_imageKey = Some ik, mk_fileKey = Some fk, mk_fileName = None\<rparr> \<and>
    (\<exists>rest. calls (snd (resolveFeishuMediaList E mid ''video'' content mb w)) =
       calls w @ DownloadMessageResource mid ik ''file'' # rest)"
proof -
  have keys: "parseMediaKeys (JSON_parse E) content ''video'' =
      \<lparr>mk_imageKey = Some ik, mk_fileKey = Some fk, mk_fileName = None\<rparr>"
    using assms(1-3) by (simp add: parseMediaKeys_def str_prop_def no_keys_def)
  have r: "resolveFeishuMediaList E mid ''video'' content mb =
      resolve_single_media E mid ''video'' mb
        \<lparr>mk_imageKey = Some ik, mk_fileKey = Some fk, mk_fileName = None\<rparr>"
    using assms(4) by (simp add: resolveFeishuMediaList_def keys falsy_str_def)
  have "first_call (DownloadMessageResource mid ik ''file'')
      (resolve_single_media E mid ''video'' mb
        \<lparr>mk_imageKey = Some ik, mk_fileKey = Some fk, mk_fileName = None\<rparr>)"
    using assms(4)
    apply (simp add: resolve_single_media_def or_else_def falsy_str_def Let_def)
    apply (intro first_try first_ask_bnd extends_bnd extends_ask extends_emit extends_ret
        extends_detect)
    done
  then show ?thesis unfolding r first_call_def using keys by blast
qed

theorem video_download_uses_image_key_witness:
  "parseMediaKeys example_parse video_content ''video'' =
      \<lparr>mk_imageKey = Some ''img_v1'', mk_fileKey = Some ''file_v1'', mk_fileName = None\<rparr> \<and>
   filter is_download
     (calls (snd (resolveFeishuMediaList example_env ''om_9'' ''video'' video_content 31457280
                    world_without_histories))) =
     [DownloadMessageResource ''om_9'' ''img_v1'' ''file'']"
proof -
  have p: "JSON_parse example_env video_content =
      Some (JObj [(''file_key'', JStr ''file_v1''), (''image_key'', JStr ''img_v1'')])"
    by code_simp
  have "filter is_download
     (calls (snd (resolveFeishuMediaList example_env ''om_9'' ''video'' video_content 31457280
                    world_without_histories))) =
     [DownloadMessageResource ''om_9'' ''img_v1'' ''file'']"
    by code_simp
  moreover have "JSON_parse example_env = example_parse" by (simp add: example_env_def)
  ultimately show ?thesis
    using video_download_uses_image_key [OF p, of "''file_v1''" "''img_v1''" "''om_9''" 31457280
        world_without_histories]
    by simp
qed

section \<open>Properties of the message handler\<close>

lemma parse_fields:
  assumes "parseFeishuMessageEvent P R event b = Inr ctx"
  shows "ctx_chatType ctx = ev_chat_type event"
    and "ctx_senderName ctx = None"
    and "ctx_chatId ctx = ev_chat_id event"
    and "ctx_messageId ctx = ev_message_id event"
    and "ctx_senderOpenId ctx = or_empty (open_id (ev_sender_id event))"
    and "ctx_mentionedBot ctx = checkBotMentioned event b"
    and "stripBotMention R (parseMessageContent P (ev_content event) (ev_message_type event))
           (ev_mentions event) = Inr (ctx_content ctx)"
  using assms
  by (auto simp: parseFeishuMessageEvent_def Let_def split: sum.splits)

lemma parse_returns:
  assumes "\<forall>m\<in>set (case ev_mentions event of Some l \<Rightarrow> l | None \<Rightarrow> []).
             regex_literal (m_name m) \<and> regex_literal (m_key m)"
  shows "\<exists>ctx. parseFeishuMessageEvent P R event b = Inr ctx"
proof -
  have "\<exists>r. stripBotMention R t (ev_mentions event) = Inr r" for t
    using assms strip_loop_returns [of _ R t]
    by (cases "ev_mentions event") (auto simp: stripBotMention_def)
  then obtain r where
    "stripBotMention R (parseMessageContent P (ev_content event) (ev_message_type event))
       (ev_mentions event) = Inr r"
    by blast
  then show ?thesis by (simp add: parseFeishuMessageEvent_def Let_def)
qed

lemma throws_when_parse_throws:
  assumes "parseFeishuMessageEvent (JSON_parse E) (RegExp_remove E) event botOpenId = Inl e"
  shows "handleFeishuMessage E cfg event botOpenId w = (Inl e, w)"
  using assms by (simp add: handleFeishuMessage_def throw_def)



lemma cleared_histories_effect:
  assumes "chatHistories w' = cleared_histories ctx limit (chatHistories w)"
    and "chatHistories w \<noteq> None" and "0 < limit"
    and "ctx_chatType ctx = ChatGroup" and "ctx_chatId ctx \<noteq> []"
  shows "history_of w' (ctx_chatId ctx) = [] \<and>
    (\<forall>k. k \<noteq> ctx_chatId ctx \<longrightarrow> history_of w' k = history_of w k)"
  using assms
  by (auto simp: cleared_histories_def history_of_def clearHistoryEntriesIfEnabled_def
      split: option.splits)

subsection \<open>C2: the history is cleared only behind a completed dispatch\<close>

text \<open>
  C2. For every group message that reaches dispatch (it was parsed into its context,
  its sender is allowed, and it mentions the bot where a mention is required), the
  handler returns normally, and either a step of the \<open>try\<close> block threw, the error was
  logged and the shared histories are as they were; or the block ran to its end, the
  conversation's buffer was cleared, and the calls end with the agent dispatch and
  \<open>markDispatchIdle\<close>, both of which returned. Cleared means: where the caller shares a
  histories map and the history limit is positive, the conversation's buffer is empty
  afterwards and every other conversation's buffer is as it was. A message whose parsing
  throws reaches no dispatch: the handler throws and changes nothing.
\<close>

theorem history_cleared_only_after_dispatch:
  fixes E cfg event botOpenId w ctx
  defines "limit \<equiv> history_limit E cfg"
  defines "body \<equiv> dispatch_body E cfg event ctx limit
     (w\<lparr>calls := calls w @
        [Log (''feishu: received message from '' @ ctx_senderOpenId ctx @ '' in '' @
              ctx_chatId ctx @ '' ('' @ chat_type_string (ctx_chatType ctx) @ '')'')]\<rparr>)"
  defines "out \<equiv> handleFeishuMessage E cfg event botOpenId w"
  assumes parsed: "parseFeishuMessageEvent (JSON_parse E) (RegExp_remove E) event botOpenId = Inr ctx"
    and grp: "ev_chat_type event = ChatGroup"
    and allowed: "group_allowed (channels_feishu cfg) ctx"
    and mentioned: "\<not> (group_requireMention (channels_feishu cfg) ctx \<and> \<not> ctx_mentionedBot ctx)"
  shows "fst out = Inr () \<and>
    (\<forall>e. fst body = Inl e \<longrightarrow>
       chatHistories (snd out) = chatHistories w \<and>
       calls (snd out) =
         calls (snd body) @ [ErrorLog (''feishu: failed to dispatch message: '' @ String_err e)]) \<and>
    (fst body = Inr () \<longrightarrow>
       snd out = snd body \<and>
       chatHistories (snd out) = cleared_histories ctx limit (chatHistories w) \<and>
       dispatch_completed E (calls (snd out)) \<and>
       (chatHistories w \<noteq> None \<and> 0 < limit \<and> ctx_chatId ctx \<noteq> [] \<longrightarrow>
          history_of (snd out) (ctx_chatId ctx) = [] \<and>
          (\<forall>k. k \<noteq> ctx_chatId ctx \<longrightarrow> history_of (snd out) k = history_of w k))) \<and>
    (\<forall>e. parseFeishuMessageEvent (JSON_parse E) (RegExp_remove E) event' botOpenId = Inl e \<longrightarrow>
       handleFeishuMessage E cfg event' botOpenId w = (Inl e, w))"
proof -
  define w1 where "w1 = w\<lparr>calls := calls w @
        [Log (''feishu: received message from '' @ ctx_senderOpenId ctx @ '' in '' @
              ctx_chatId ctx @ '' ('' @ chat_type_string (ctx_chatType ctx) @ '')'')]\<rparr>"
  have body: "body = dispatch_body E cfg event ctx limit w1" by (simp add: body_def w1_def)
  have g: "ctx_chatType ctx = ChatGroup" using parse_fields(1) [OF parsed] grp by simp
  have out: "out = try_catch (dispatch_body E cfg event ctx limit)
              (\<lambda>err. emit (ErrorLog (''feishu: failed to dispatch message: '' @ String_err err))) w1"
    using allowed mentioned g
    by (cases "group_requireMention (channels_feishu cfg) ctx")
       (simp_all add: out_def handleFeishuMessage_def parsed Let_def bnd_def emit_def w1_def
        limit_def [symmetric])
  have h1: "chatHistories w1 = chatHistories w" by (simp add: w1_def)
  have c: "(isl (fst body) \<longrightarrow> chatHistories (snd body) = chatHistories w) \<and>
          (\<not> isl (fst body) \<longrightarrow>
             chatHistories (snd body) = cleared_histories ctx limit (chatHistories w) \<and>
             dispatch_completed E (calls (snd body)))"
    using clears_dispatch_body [of E ctx limit cfg event, unfolded clears_after_dispatch_def]
    unfolding body h1 [symmetric] by blast
  have t: "\<forall>e. parseFeishuMessageEvent (JSON_parse E) (RegExp_remove E) event' botOpenId = Inl e \<longrightarrow>
       handleFeishuMessage E cfg event' botOpenId w = (Inl e, w)"
    using throws_when_parse_throws by blast
  obtain r w2 where b: "body = (r, w2)" by fastforce
  show ?thesis
  proof (cases r)
    case (Inl e)
    then have "fst out = Inr () \<and>
      (\<forall>e. fst body = Inl e \<longrightarrow>
         chatHistories (snd out) = chatHistories w \<and>
         calls (snd out) =
           calls (snd body) @ [ErrorLog (''feishu: failed to dispatch message: '' @ String_err e)]) \<and>
      fst body \<noteq> Inr ()"
      using b c out body by (simp add: try_catch_def emit_def)
    then have "fst out = Inr () \<and>
      (\<forall>e. fst body = Inl e \<longrightarrow>
         chatHistories (snd out) = chatHistories w \<and>
         calls (snd out) =
           calls (snd body) @ [ErrorLog (''feishu: failed to dispatch message: '' @ String_err e)]) \<and>
      (fst body = Inr () \<longrightarrow>
         snd out = snd body \<and>
         chatHistories (snd out) = cleared_histories ctx limit (chatHistories w) \<and>
         dispatch_completed E (calls (snd out)) \<and>
         (chatHistories w \<noteq> None \<and> 0 < limit \<and> ctx_chatId ctx \<noteq> [] \<longrightarrow>
            history_of (snd out) (ctx_chatId ctx) = [] \<and>
            (\<forall>k. k \<noteq> ctx_chatId ctx \<longrightarrow> history_of (snd out) k = history_of w k)))"
      by blast
    then show ?thesis using t by (elim conjE, intro conjI) assumption+
  next
    case (Inr u)
    then have o: "snd out = snd body"
      "chatHistories (snd out) = cleared_histories ctx limit (chatHistories w)"
      "dispatch_completed E (calls (snd out))" "fst out = Inr ()"
      using b c out body by (simp_all add: try_catch_def)
    have "chatHistories w \<noteq> None \<and> 0 < limit \<and> ctx_chatId ctx \<noteq> [] \<longrightarrow>
          history_of (snd out) (ctx_chatId ctx) = [] \<and>
          (\<forall>k. k \<noteq> ctx_chatId ctx \<longrightarrow> history_of (snd out) k = history_of w k)"
      using cleared_histories_effect [OF o(2) _ _ g] by blast
    then have "fst out = Inr () \<and>
      (\<forall>e. fst body \<noteq> Inl e) \<and>
      snd out = snd body \<and>
      chatHistories (snd out) = cleared_histories ctx limit (chatHistories w) \<and>
      dispatch_completed E (calls (snd out)) \<and>
      (chatHistories w \<noteq> None \<and> 0 < limit \<and> ctx_chatId ctx \<noteq> [] \<longrightarrow>
          history_of (snd out) (ctx_chatId ctx) = [] \<and>
          (\<forall>k. k \<noteq> ctx_chatId ctx \<longrightarrow> history_of (snd out) k = history_of w k))"
      using o Inr b by simp
    then have "fst out = Inr () \<and>
      (\<forall>e. fst body = Inl e \<longrightarrow>
         chatHistories (snd out) = chatHistories w \<and>
         calls (snd out) =
           calls (snd body) @ [ErrorLog (''feishu: failed to dispatch message: '' @ String_err e)]) \<and>
      (fst body = Inr () \<longrightarrow>
         snd out = snd body \<and>
         chatHistories (snd out) = cleared_histories ctx limit (chatHistories w) \<and>
         dispatch_completed E (calls (snd out)) \<and>
         (chatHistories w \<noteq> None \<and> 0 < limit \<and> ctx_chatId ctx \<noteq> [] \<longrightarrow>
            history_of (snd out) (ctx_chatId ctx) = [] \<and>
            (\<forall>k. k \<noteq> ctx_chatId ctx \<longrightarrow> history_of (snd out) k = history_of w k)))"
      by blast
    then show ?thesis using t by (elim conjE, intro conjI) assumption+
  qed
qed

theorem history_cleared_only_after_dispatch_witness:
  "history_of example_world ''oc_team'' = [earlier_entry] \<and>
   history_of (snd (handleFeishuMessage example_env example_cfg mention_event (Some ''ou_bot'')
                      example_world)) ''oc_team'' = [] \<and>
   dispatch_completed example_env
     (calls (snd (handleFeishuMessage example_env example_cfg mention_event (Some ''ou_bot'')
                    example_world))) \<and>
   history_of (snd (handleFeishuMessage failing_agent_env example_cfg mention_event (Some ''ou_bot'')
                      example_world)) ''oc_team'' = [earlier_entry] \<and>
   chatHistories (snd (handleFeishuMessage failing_agent_env example_cfg mention_event
                         (Some ''ou_bot'') example_world)) = chatHistories example_world \<and>
   last (calls (snd (handleFeishuMessage failing_agent_env example_cfg mention_event
                       (Some ''ou_bot'') example_world))) =
     ErrorLog ''feishu: failed to dispatch message: Error: agent failed'' \<and>
   isl (fst (handleFeishuMessage example_env example_cfg cpp_event (Some ''ou_bot'') example_world)) \<and>
   snd (handleFeishuMessage example_env example_cfg cpp_event (Some ''ou_bot'') example_world) =
     example_world"
proof -
  let ?p = "parseFeishuMessageEvent (JSON_parse example_env) (RegExp_remove example_env)
              mention_event (Some ''ou_bot'')"
  let ?q = "parseFeishuMessageEvent (JSON_parse failing_agent_env) (RegExp_remove failing_agent_env)
              mention_event (Some ''ou_bot'')"
  let ?c = "parseFeishuMessageEvent (JSON_parse example_env) (RegExp_remove example_env)
              cpp_event (Some ''ou_bot'')"
  have "\<not> isl ?p" "\<not> isl ?q" "isl ?c" by code_simp+
  then have p: "?p = Inr (projr ?p)" and q: "?q = Inr (projr ?q)" and c: "?c = Inl (projl ?c)"
    by simp_all
  have h: "ev_chat_type mention_event = ChatGroup"
    "group_allowed (channels_feishu example_cfg) (projr ?p)"
    "\<not> (group_requireMention (channels_feishu example_cfg) (projr ?p) \<and>
       \<not> ctx_mentionedBot (projr ?p))"
    by code_simp+
  have h': "group_allowed (channels_feishu example_cfg) (projr ?q)"
    "\<not> (group_requireMention (channels_feishu example_cfg) (projr ?q) \<and>
       \<not> ctx_mentionedBot (projr ?q))"
    by code_simp+
  have ok: "fst (dispatch_body example_env example_cfg mention_event (projr ?p)
      (history_limit example_env example_cfg)
      (example_world\<lparr>calls := calls example_world @
        [Log (''feishu: received message from '' @ ctx_senderOpenId (projr ?p) @ '' in '' @
              ctx_chatId (projr ?p) @ '' ('' @ chat_type_string (ctx_chatType (projr ?p)) @
              '')'')]\<rparr>)) = Inr ()"
    by code_simp
  have bad: "fst (dispatch_body failing_agent_env example_cfg mention_event (projr ?q)
      (history_limit failing_agent_env example_cfg)
      (example_world\<lparr>calls := calls example_world @
        [Log (''feishu: received message from '' @ ctx_senderOpenId (projr ?q) @ '' in '' @
              ctx_chatId (projr ?q) @ '' ('' @ chat_type_string (ctx_chatType (projr ?q)) @
              '')'')]\<rparr>)) = Inl (Thrown ''Error: agent failed'')"
    by code_simp
  have e: "history_of example_world ''oc_team'' = [earlier_entry]"
    "history_of (snd (handleFeishuMessage example_env example_cfg mention_event (Some ''ou_bot'')
                      example_world)) ''oc_team'' = []"
    "history_of (snd (handleFeishuMessage failing_agent_env example_cfg mention_event (Some ''ou_bot'')
                      example_world)) ''oc_team'' = [earlier_entry]"
    "last (calls (snd (handleFeishuMessage failing_agent_env example_cfg mention_event
                       (Some ''ou_bot'') example_world))) =
     ErrorLog ''feishu: failed to dispatch message: Error: agent failed''"
    by code_simp+
  have completed: "dispatch_completed example_env
     (calls (snd (handleFeishuMessage example_env example_cfg mention_event (Some ''ou_bot'')
                    example_world)))"
    using history_cleared_only_after_dispatch [OF p h, where w = example_world] ok by blast
  have kept: "chatHistories (snd (handleFeishuMessage failing_agent_env example_cfg mention_event
                         (Some ''ou_bot'') example_world)) = chatHistories example_world"
    using history_cleared_only_after_dispatch [OF q h(1) h', where w = example_world] bad by blast
  have "handleFeishuMessage example_env example_cfg cpp_event (Some ''ou_bot'') example_world =
      (Inl (projl ?c), example_world)"
    using history_cleared_only_after_dispatch [OF p h, where w = example_world and event' = cpp_event] c by blast
  then have thrown:
    "isl (fst (handleFeishuMessage example_env example_cfg cpp_event (Some ''ou_bot'') example_world))"
    "snd (handleFeishuMessage example_env example_cfg cpp_event (Some ''ou_bot'') example_world) =
     example_world"
    by simp_all
  show ?thesis using e completed kept thrown by (simp only: simp_thms)
qed

subsection \<open>C1: buffer and drop\<close>

text \<open>
  C1, as amended. For every accepted group message (parsed into its context, sender
  allowed) whose reply policy requires a mention and which does not mention the bot,
  \<open>handleFeishuMessage\<close> returns after two log lines: no dispatch, no media resolution,
  no reply. When the caller shares a histories map and the history limit is positive,
  the conversation's buffer becomes its old entries followed by one new entry (sender
  id, stripped body, time, message id), cut to the newest \<open>limit\<close> entries, and the other
  conversations keep theirs; without a map, or with limit 0, the histories stay as
  they were. Every event whose mentions' names and keys hold no character special in a
  regular expression is parsed into a context.
\<close>

theorem buffer_and_drop:
  fixes E cfg event botOpenId w ctx
  defines "limit \<equiv> history_limit E cfg"
  defines "logs \<equiv>
     [Log (''feishu: received message from '' @ ctx_senderOpenId ctx @ '' in '' @
             ctx_chatId ctx @ '' ('' @ chat_type_string (ctx_chatType ctx) @ '')''),
      Log (''feishu: message in group '' @ ctx_chatId ctx @
             '' did not mention bot, recording to history'')]"
  defines "entry \<equiv>
     \<lparr>he_sender = ctx_senderOpenId ctx, he_body = ctx_content ctx,
      he_timestamp = clock E (calls w @ logs), he_messageId = ctx_messageId ctx\<rparr>"
  defines "out \<equiv> handleFeishuMessage E cfg event botOpenId w"
  assumes parsed: "parseFeishuMessageEvent (JSON_parse E) (RegExp_remove E) event botOpenId = Inr ctx"
    and grp: "ev_chat_type event = ChatGroup"
    and allowed: "group_allowed (channels_feishu cfg) ctx"
    and required: "group_requireMention (channels_feishu cfg) ctx"
    and unmentioned: "\<not> ctx_mentionedBot ctx"
  shows "fst out = Inr () \<and>
    calls (snd out) = calls w @ logs \<and>
    (chatHistories w \<noteq> None \<and> 0 < limit \<longrightarrow>
       history_of (snd out) (ctx_chatId ctx) =
         drop (length (history_of w (ctx_chatId ctx)) + 1 - nat limit)
           (history_of w (ctx_chatId ctx) @ [entry]) \<and>
       last (history_of (snd out) (ctx_chatId ctx)) = entry \<and>
       (\<forall>k. k \<noteq> ctx_chatId ctx \<longrightarrow> history_of (snd out) k = history_of w k)) \<and>
    (chatHistories w = None \<or> limit = 0 \<longrightarrow> chatHistories (snd out) = chatHistories w) \<and>
    ((\<forall>m\<in>set (case ev_mentions event' of Some l \<Rightarrow> l | None \<Rightarrow> []).
         regex_literal (m_name m) \<and> regex_literal (m_key m)) \<longrightarrow>
       (\<exists>c. parseFeishuMessageEvent (JSON_parse E) (RegExp_remove E) event' botOpenId = Inr c))"
proof -
  have limit: "0 \<le> limit" by (simp add: limit_def history_limit_def)
  have g: "ctx_chatType ctx = ChatGroup" using parse_fields(1) [OF parsed] grp by simp
  have out: "out = record_pending E ctx limit (w\<lparr>calls := calls w @ logs\<rparr>)"
    using allowed required unmentioned g
    by (simp add: out_def handleFeishuMessage_def parsed Let_def bnd_def emit_def logs_def
        limit_def [symmetric])
  have total: "(\<forall>m\<in>set (case ev_mentions event' of Some l \<Rightarrow> l | None \<Rightarrow> []).
         regex_literal (m_name m) \<and> regex_literal (m_key m)) \<longrightarrow>
       (\<exists>c. parseFeishuMessageEvent (JSON_parse E) (RegExp_remove E) event' botOpenId = Inr c)"
    using parse_returns by blast
  have main: "fst out = Inr () \<and>
    calls (snd out) = calls w @ logs \<and>
    (chatHistories w \<noteq> None \<and> 0 < limit \<longrightarrow>
       history_of (snd out) (ctx_chatId ctx) =
         drop (length (history_of w (ctx_chatId ctx)) + 1 - nat limit)
           (history_of w (ctx_chatId ctx) @ [entry]) \<and>
       last (history_of (snd out) (ctx_chatId ctx)) = entry \<and>
       (\<forall>k. k \<noteq> ctx_chatId ctx \<longrightarrow> history_of (snd out) k = history_of w k)) \<and>
    (chatHistories w = None \<or> limit = 0 \<longrightarrow> chatHistories (snd out) = chatHistories w)"
  proof (cases "chatHistories w")
    case None
    then show ?thesis by (simp add: out record_pending_def)
  next
    case (Some m)
    show ?thesis
    proof (cases "limit = 0")
      case True
      then show ?thesis
        using Some by (simp add: out record_pending_def recordPendingHistoryEntryIfEnabled_def)
    next
      case False
      then have pos: "0 < limit" using limit by simp
      have "length (history_of w (ctx_chatId ctx)) + 1 - nat limit
            < length (history_of w (ctx_chatId ctx) @ [entry])"
        using pos by (simp add: less_Suc_eq_le)
      then have "last (drop (length (history_of w (ctx_chatId ctx)) + 1 - nat limit)
           (history_of w (ctx_chatId ctx) @ [entry])) = entry"
        by (simp del: length_append drop_append)
      then show ?thesis
        using Some pos
        by (simp add: out record_pending_def recordPendingHistoryEntryIfEnabled_def Let_def
            history_of_def entry_def split: option.splits)
    qed
  qed
  show ?thesis using main total by (elim conjE, intro conjI) assumption+
qed

theorem buffer_and_drop_witness:
  "calls (snd (handleFeishuMessage example_env example_cfg example_event (Some ''ou_bot'')
                 example_world)) =
     [Log ''feishu: received message from ou_alice in oc_team (group)'',
      Log ''feishu: message in group oc_team did not mention bot, recording to history''] \<and>
   history_of (snd (handleFeishuMessage example_env example_cfg example_event (Some ''ou_bot'')
                      example_world)) ''oc_team'' =
     [earlier_entry,
      \<lparr>he_sender = ''ou_alice'', he_body = ''hello'', he_timestamp = 1700000000000,
       he_messageId = ''om_2''\<rparr>] \<and>
   \<not> isl (parseFeishuMessageEvent (JSON_parse example_env) (RegExp_remove example_env)
            mention_event (Some ''ou_bot''))"
proof -
  let ?p = "parseFeishuMessageEvent (JSON_parse example_env) (RegExp_remove example_env)
              example_event (Some ''ou_bot'')"
  have "\<not> isl ?p" by code_simp
  then have p: "?p = Inr (projr ?p)" by simp
  have h: "ev_chat_type example_event = ChatGroup"
    "group_allowed (channels_feishu example_cfg) (projr ?p)"
    "group_requireMention (channels_feishu example_cfg) (projr ?p)"
    "\<not> ctx_mentionedBot (projr ?p)"
    by code_simp+
  have v: "chatHistories example_world \<noteq> None \<and> 0 < history_limit example_env example_cfg"
    by code_simp
  have ctx: "ctx_chatId (projr ?p) = ''oc_team''"
    "ctx_senderOpenId (projr ?p) = ''ou_alice''"
    "ctx_content (projr ?p) = ''hello''"
    "ctx_messageId (projr ?p) = ''om_2''"
    "ctx_chatType (projr ?p) = ChatGroup"
    by code_simp+
  have e: "history_of example_world ''oc_team'' = [earlier_entry]"
    "history_limit example_env example_cfg = 50"
    "calls example_world = []"
    "chat_type_string ChatGroup = ''group''"
    "clock example_env = (\<lambda>cs. 1700000000000)"
    by (simp_all add: history_of_def example_world_def history_limit_def example_env_def
        example_cfg_def example_feishu_cfg_def chat_type_string_def)
  have lit: "\<forall>m\<in>set (case ev_mentions mention_event of Some l \<Rightarrow> l | None \<Rightarrow> []).
         regex_literal (m_name m) \<and> regex_literal (m_key m)"
    by code_simp
  have "\<exists>c. parseFeishuMessageEvent (JSON_parse example_env) (RegExp_remove example_env)
            mention_event (Some ''ou_bot'') = Inr c"
    using buffer_and_drop [OF p h, where w = example_world and event' = mention_event] lit by blast
  then have total: "\<not> isl (parseFeishuMessageEvent (JSON_parse example_env)
            (RegExp_remove example_env) mention_event (Some ''ou_bot''))"
    by auto
  have "calls (snd (handleFeishuMessage example_env example_cfg example_event (Some ''ou_bot'')
                 example_world)) =
     [Log ''feishu: received message from ou_alice in oc_team (group)'',
      Log ''feishu: message in group oc_team did not mention bot, recording to history''] \<and>
   history_of (snd (handleFeishuMessage example_env example_cfg example_event (Some ''ou_bot'')
                      example_world)) ''oc_team'' =
     [earlier_entry,
      \<lparr>he_sender = ''ou_alice'', he_body = ''hello'', he_timestamp = 1700000000000,
       he_messageId = ''om_2''\<rparr>]"
    using buffer_and_drop [OF p h, where w = example_world and event' = example_event] v
    unfolding ctx e by simp
  then show ?thesis using total by (simp only: simp_thms)
qed

text \<open>
  The claim as stated fails where buffering is off: without a histories map no entry
  is recorded anywhere, and with \<open>historyLimit\<close> 0 the conversation's buffer stays as
  it was.
\<close>

theorem no_entry_without_buffer:
  "ev_chat_type example_event = ChatGroup \<and>
   \<not> isl (parseFeishuMessageEvent (JSON_parse example_env) (RegExp_remove example_env)
            example_event (Some ''ou_bot'')) \<and>
   group_allowed (channels_feishu example_cfg)
     (projr (parseFeishuMessageEvent (JSON_parse example_env) (RegExp_remove example_env)
               example_event (Some ''ou_bot''))) \<and>
   group_requireMention (channels_feishu example_cfg)
     (projr (parseFeishuMessageEvent (JSON_parse example_env) (RegExp_remove example_env)
               example_event (Some ''ou_bot''))) \<and>
   \<not> ctx_mentionedBot
     (projr (parseFeishuMessageEvent (JSON_parse example_env) (RegExp_remove example_env)
               example_event (Some ''ou_bot''))) \<and>
   chatHistories (snd (handleFeishuMessage example_env example_cfg example_event (Some ''ou_bot'')
                        world_without_histories)) = None \<and>
   group_allowed (channels_feishu no_history_cfg)
     (projr (parseFeishuMessageEvent (JSON_parse example_env) (RegExp_remove example_env)
               example_event (Some ''ou_bot''))) \<and>
   group_requireMention (channels_feishu no_history_cfg)
     (projr (parseFeishuMessageEvent (JSON_parse example_env) (RegExp_remove example_env)
               example_event (Some ''ou_bot''))) \<and>
   history_of example_world ''oc_team'' = [earlier_entry] \<and>
   history_of (snd (handleFeishuMessage example_env no_history_cfg example_event (Some ''ou_bot'')
                      example_world)) ''oc_team'' = [earlier_entry]"
  by code_simp

subsection \<open>C3: admission of group messages\<close>




end
